theory Spec2Isabelle
  imports Main "HOL-Library.Word" "HOL-Library.AList"
begin

section \<open>Python values used by the binding\<close>

text \<open>
  \<^verbatim>\<open>bytes\<close> values are \<^typ>\<open>string\<close> (a list of 8-bit characters); a Python \<^verbatim>\<open>str\<close> is
  the list of its code points. Exceptions are values of \<open>exn\<close>; \<open>Native\<close> stands for
  any exception the binding does not name itself.
\<close>

type_synonym pystr = "nat list"

type_synonym c_int = "32 word"

datatype exn =
    OSError
  | UnicodeDecodeError
  | AttributeError
  | ValueError
  | IndexError
  | TypeError
  | Native nat

definition ascii :: "string \<Rightarrow> pystr" where
  "ascii s = map of_char s"

definition comma :: nat where
  "comma = 44"

definition dquote :: nat where
  "dquote = 34"

subsection \<open>\<^verbatim>\<open>bytes.decode()\<close>: strict UTF-8\<close>

definition cont :: "nat \<Rightarrow> bool" where
  "cont b \<longleftrightarrow> 128 \<le> b \<and> b < 192"

definition push :: "nat \<Rightarrow> exn + pystr \<Rightarrow> exn + pystr" where
  "push cp r = (case r of Inl e \<Rightarrow> Inl e | Inr cps \<Rightarrow> Inr (cp # cps))"

fun utf8 :: "nat list \<Rightarrow> exn + pystr" where
  "utf8 [] = Inr []"
| "utf8 (b0 # bs) =
     (if b0 < 128 then push b0 (utf8 bs)
      else if 194 \<le> b0 \<and> b0 < 224 then
        (case bs of
           b1 # r \<Rightarrow>
             if cont b1 then push ((b0 - 192) * 64 + (b1 - 128)) (utf8 r)
             else Inl UnicodeDecodeError
         | _ \<Rightarrow> Inl UnicodeDecodeError)
      else if 224 \<le> b0 \<and> b0 < 240 then
        (case bs of
           b1 # b2 # r \<Rightarrow>
             if (if b0 = 224 then 160 else 128) \<le> b1
                \<and> b1 < (if b0 = 237 then 160 else 192) \<and> cont b2
             then push ((b0 - 224) * 4096 + (b1 - 128) * 64 + (b2 - 128)) (utf8 r)
             else Inl UnicodeDecodeError
         | _ \<Rightarrow> Inl UnicodeDecodeError)
      else if 240 \<le> b0 \<and> b0 < 245 then
        (case bs of
           b1 # b2 # b3 # r \<Rightarrow>
             if (if b0 = 240 then 144 else 128) \<le> b1
                \<and> b1 < (if b0 = 244 then 144 else 192) \<and> cont b2 \<and> cont b3
             then push ((b0 - 240) * 262144 + (b1 - 128) * 4096
                        + (b2 - 128) * 64 + (b3 - 128)) (utf8 r)
             else Inl UnicodeDecodeError
         | _ \<Rightarrow> Inl UnicodeDecodeError)
      else Inl UnicodeDecodeError)"

definition decode :: "string \<Rightarrow> exn + pystr" where
  "decode bs = utf8 (map of_char bs)"

subsection \<open>\<^verbatim>\<open>str.split(sep)\<close>, \<^verbatim>\<open>str.replace(c, "")\<close>, \<^verbatim>\<open>list.index\<close>, \<^verbatim>\<open>dict(pairs)\<close>\<close>

fun split :: "nat \<Rightarrow> pystr \<Rightarrow> pystr list" where
  "split sep [] = [[]]"
| "split sep (c # cs) =
     (if c = sep then [] # split sep cs
      else (case split sep cs of [] \<Rightarrow> [[c]] | p # ps \<Rightarrow> (c # p) # ps))"

definition remove_char :: "nat \<Rightarrow> pystr \<Rightarrow> pystr" where
  "remove_char c s = filter (\<lambda>x. x \<noteq> c) s"

fun index :: "'a list \<Rightarrow> 'a \<Rightarrow> exn + nat" where
  "index [] x = Inl ValueError"
| "index (y # ys) x =
     (if y = x then Inr 0
      else (case index ys x of Inl e \<Rightarrow> Inl e | Inr i \<Rightarrow> Inr (Suc i)))"

text \<open>
  A Python \<^verbatim>\<open>dict\<close> keeps its entries in insertion order with one entry per key:
  storing under a new key appends an entry, storing under a present key replaces the
  value in place. That is \<^const>\<open>AList.update\<close> on an association list.
\<close>

type_synonym ('k, 'v) dict = "('k \<times> 'v) list"

definition dict :: "('k \<times> 'v) list \<Rightarrow> ('k, 'v) dict" where
  "dict ps = fold (\<lambda>(k, v) d. AList.update k v d) ps []"

section \<open>The process and the Chadwick instance\<close>

text \<open>
  The native library is not part of the binding: its two field-descriptor tables, its two
  flag arrays and its file functions are fields of the \<open>world\<close>, so every theorem
  holds for whatever the library contains and does. The symbol \<^verbatim>\<open>cwevent_field_data\<close>
  (and its three siblings) is the memory behind that symbol, read by row index; a row
  shows the one field the binding reads, \<^verbatim>\<open>header\<close>. \<open>resolves\<close> says which paths
  \<^verbatim>\<open>ctypes.cdll.LoadLibrary\<close> can load. \<open>trace\<close> records, in order, the loads, the
  native file calls with what they returned, and the warnings logged.
\<close>

datatype handle = CDLL string

type_synonym file_handle = "nat option"

type_synonym game_ptr = nat

datatype event =
    LoadLibrary string
  | Warn pystr
  | Fopen string string file_handle
  | Feof file_handle c_int
  | CwGameRead file_handle "exn + game_ptr"
  | Fclose file_handle

record CWEventFieldStruct =
  header :: string

record 'n world =
  resolves :: "string \<Rightarrow> bool"
  sym_cwevent_field_data :: "nat \<Rightarrow> CWEventFieldStruct"
  sym_fields :: "nat \<Rightarrow> c_int"
  sym_cwevent_ext_field_data :: "nat \<Rightarrow> CWEventFieldStruct"
  sym_ext_fields :: "nat \<Rightarrow> c_int"
  c_fopen :: "string \<Rightarrow> string \<Rightarrow> 'n \<Rightarrow> file_handle \<times> 'n"
  c_feof :: "file_handle \<Rightarrow> 'n \<Rightarrow> c_int \<times> 'n"
  c_fclose :: "file_handle \<Rightarrow> 'n \<Rightarrow> 'n"
  c_cw_game_read :: "file_handle \<Rightarrow> 'n \<Rightarrow> (exn + game_ptr) \<times> 'n"
  native :: 'n
  trace :: "event list"

record Chadwick =
  dll :: "handle option"
  library_path :: string

text \<open>
  A method runs on the instance and the world and returns its value or the exception
  it raised, with the instance and the world as it left them.
\<close>

type_synonym 'n st = "Chadwick \<times> 'n world"

type_synonym ('a, 'n) action = "'n st \<Rightarrow> (exn + 'a) \<times> 'n st"

definition ret :: "'a \<Rightarrow> ('a, 'n) action" where
  "ret x = (\<lambda>s. (Inr x, s))"

definition bind :: "('a, 'n) action \<Rightarrow> ('a \<Rightarrow> ('b, 'n) action) \<Rightarrow> ('b, 'n) action" where
  "bind m f = (\<lambda>s. case m s of (Inl e, s') \<Rightarrow> (Inl e, s') | (Inr x, s') \<Rightarrow> f x s')"

definition lift :: "exn + 'a \<Rightarrow> ('a, 'n) action" where
  "lift r = (\<lambda>s. (r, s))"

definition emit :: "event \<Rightarrow> (unit, 'n) action" where
  "emit ev = (\<lambda>(c, w). (Inr (), c, w\<lparr>trace := trace w @ [ev]\<rparr>))"

primrec for_each :: "('a \<Rightarrow> (unit, 'n) action) \<Rightarrow> 'a list \<Rightarrow> (unit, 'n) action" where
  "for_each f [] = ret ()"
| "for_each f (x # xs) = bind (f x) (\<lambda>_. for_each f xs)"

primrec decode_all :: "string list \<Rightarrow> exn + pystr list" where
  "decode_all [] = Inr []"
| "decode_all (b # bs) =
     (case decode b of
        Inl e \<Rightarrow> Inl e
      | Inr t \<Rightarrow> (case decode_all bs of Inl e \<Rightarrow> Inl e | Inr ts \<Rightarrow> Inr (t # ts)))"

subsection \<open>Loading the library\<close>

definition FIELDS_COUNT :: nat where
  "FIELDS_COUNT = 96"

definition EXT_FIELDS_COUNT :: nat where
  "EXT_FIELDS_COUNT = 63"

definition load_shared_library :: "string \<Rightarrow> (unit, 'n) action" where
  "load_shared_library path =
     bind (emit (LoadLibrary path)) (\<lambda>_. \<lambda>(c, w).
       if resolves w path then (Inr (), c\<lparr>dll := Some (CDLL path)\<rparr>, w)
       else (Inl OSError, c, w))"

text \<open>The property \<^verbatim>\<open>libchadwick\<close> returns \<^verbatim>\<open>self._dll\<close>, loading first when it is None.\<close>

definition libchadwick :: "(handle option, 'n) action" where
  "libchadwick =
     bind (\<lambda>(c, w). if dll c = None then load_shared_library (library_path c) (c, w)
                     else (Inr (), c, w))
          (\<lambda>_. \<lambda>(c, w). (Inr (dll c), c, w))"

text \<open>
  \<^verbatim>\<open>(T * n).in_dll(lib, name)\<close> overlays an array of \<open>n\<close> elements on the symbol;
  on None in place of a library it raises.
\<close>

definition in_dll :: "handle option \<Rightarrow> nat \<Rightarrow> ('n world \<Rightarrow> nat \<Rightarrow> 'a) \<Rightarrow> ('a list, 'n) action" where
  "in_dll lib n mem =
     (\<lambda>(c, w). case lib of
        None \<Rightarrow> (Inl AttributeError, c, w)
      | Some h \<Rightarrow> (Inr (map (mem w) [0..<n]), c, w))"

definition cwevent_field_data :: "(CWEventFieldStruct list, 'n) action" where
  "cwevent_field_data = bind libchadwick (\<lambda>lib. in_dll lib FIELDS_COUNT sym_cwevent_field_data)"

definition cwevent_fields :: "(c_int list, 'n) action" where
  "cwevent_fields = bind libchadwick (\<lambda>lib. in_dll lib FIELDS_COUNT sym_fields)"

definition cwevent_ext_field_data :: "(CWEventFieldStruct list, 'n) action" where
  "cwevent_ext_field_data =
     bind libchadwick (\<lambda>lib. in_dll lib EXT_FIELDS_COUNT sym_cwevent_ext_field_data)"

definition cwevent_ext_fields :: "(c_int list, 'n) action" where
  "cwevent_ext_fields = bind libchadwick (\<lambda>lib. in_dll lib EXT_FIELDS_COUNT sym_ext_fields)"

definition cwevent_headers :: "(pystr list, 'n) action" where
  "cwevent_headers = bind cwevent_field_data (\<lambda>rows. lift (decode_all (map header rows)))"

definition cwevent_ext_headers :: "(pystr list, 'n) action" where
  "cwevent_ext_headers =
     bind cwevent_ext_field_data (\<lambda>rows. lift (decode_all (map header rows)))"

definition all_headers :: "(pystr list, 'n) action" where
  "all_headers = bind cwevent_headers (\<lambda>hs. bind cwevent_ext_headers (\<lambda>es. ret (hs @ es)))"

subsection \<open>Switching fields on and off\<close>

text \<open>
  \<^verbatim>\<open>self.cwevent_fields[idx] = value\<close> stores the Python integer as a C \<^verbatim>\<open>int\<close> (ctypes
  keeps the low 32 bits) in the library's own array; an index outside the array raises.
\<close>

definition store_field :: "nat \<Rightarrow> int \<Rightarrow> (unit, 'n) action" where
  "store_field idx v =
     bind cwevent_fields (\<lambda>arr. \<lambda>(c, w).
       if idx < length arr then (Inr (), c, w\<lparr>sym_fields := (sym_fields w)(idx := word_of_int v)\<rparr>)
       else (Inl IndexError, c, w))"

definition store_ext_field :: "nat \<Rightarrow> int \<Rightarrow> (unit, 'n) action" where
  "store_ext_field idx v =
     bind cwevent_ext_fields (\<lambda>arr. \<lambda>(c, w).
       if idx < length arr
       then (Inr (), c, w\<lparr>sym_ext_fields := (sym_ext_fields w)(idx := word_of_int v)\<rparr>)
       else (Inl IndexError, c, w))"

definition not_in_headers :: "pystr \<Rightarrow> pystr" where
  "not_in_headers field_name =
     ascii ''field_name '' @ field_name @ ascii '' is not in the headers. value NOT set''"

definition set_event_field_value :: "pystr \<Rightarrow> int \<Rightarrow> (unit, 'n) action" where
  "set_event_field_value field_name v =
     bind cwevent_headers (\<lambda>hs.
       if field_name \<in> set hs then
         bind cwevent_headers (\<lambda>hs'. bind (lift (index hs' field_name)) (\<lambda>idx.
           store_field idx v))
       else
         bind cwevent_ext_headers (\<lambda>es.
           if field_name \<in> set es then
             bind cwevent_ext_headers (\<lambda>es'. bind (lift (index es' field_name)) (\<lambda>idx.
               store_ext_field idx v))
           else emit (Warn (not_in_headers field_name))))"

definition set_event_field :: "pystr \<Rightarrow> (unit, 'n) action" where
  "set_event_field field_name = set_event_field_value field_name 1"

definition unset_event_field :: "pystr \<Rightarrow> (unit, 'n) action" where
  "unset_event_field field_name = set_event_field_value field_name 0"

definition set_all_headers :: "(unit, 'n) action" where
  "set_all_headers = bind all_headers (\<lambda>hs. for_each set_event_field hs)"

text \<open>
  \<^verbatim>\<open>Chadwick(library_path)\<close>: the new instance with the world as the constructor left
  it, or the exception that ended the constructor.
\<close>

definition Chadwick_init :: "string \<Rightarrow> 'n world \<Rightarrow> (exn + unit) \<times> 'n st" where
  "Chadwick_init path w =
     bind (load_shared_library path) (\<lambda>_. set_all_headers)
       (\<lparr>dll = None, library_path = path\<rparr>, w)"

subsection \<open>Event records\<close>

text \<open>
  The comprehension of \<^verbatim>\<open>active_headers\<close> reads the flag array once per header; the
  reads change nothing, so the model takes the array once. Element \<open>i\<close> of the array
  reads as a Python integer, \<open>sint\<close> of the C value.
\<close>

definition enabled :: "pystr list \<Rightarrow> c_int list \<Rightarrow> pystr list" where
  "enabled hs flags = map fst (filter (\<lambda>(h, x). sint x = 1) (zip hs flags))"

definition active_headers :: "(pystr list, 'n) action" where
  "active_headers =
     bind cwevent_headers (\<lambda>hs. bind cwevent_fields (\<lambda>flags.
     bind cwevent_ext_headers (\<lambda>es. bind cwevent_ext_fields (\<lambda>eflags.
       ret (enabled hs flags @ enabled es eflags)))))"

definition listicize_event_string :: "string \<Rightarrow> exn + pystr list" where
  "listicize_event_string event_bytes =
     (case decode event_bytes of
        Inl e \<Rightarrow> Inl e
      | Inr text \<Rightarrow> Inr (map (remove_char dquote) (split comma text)))"

definition dicticize_event_string ::
    "string \<Rightarrow> pystr list option \<Rightarrow> ((pystr, pystr) dict, 'n) action" where
  "dicticize_event_string event_bytes headers =
     bind (case headers of None \<Rightarrow> active_headers | Some hs \<Rightarrow> ret hs) (\<lambda>hs.
       bind (lift (listicize_event_string event_bytes)) (\<lambda>items. ret (dict (zip hs items))))"

text \<open>
  Two notions used to state what the record translation does. \<open>join\<close> is
  \<^verbatim>\<open>sep.join(pieces)\<close>. \<open>quoted_fields\<close> follows the wording of the interface
  description instead of the code: a record of comma-separated, quoted fields, where a
  comma between double quotes belongs to the field; the flag says whether the reader is
  between quotes.
\<close>

fun join :: "nat \<Rightarrow> pystr list \<Rightarrow> pystr" where
  "join sep [] = []"
| "join sep [p] = p"
| "join sep (p # q # ps) = p @ sep # join sep (q # ps)"

fun quoted_fields :: "bool \<Rightarrow> pystr \<Rightarrow> pystr list" where
  "quoted_fields q [] = [[]]"
| "quoted_fields q (c # cs) =
     (if c = dquote then quoted_fields (\<not> q) cs
      else if c = comma \<and> \<not> q then [] # quoted_fields q cs
      else (case quoted_fields q cs of [] \<Rightarrow> [[c]] | p # ps \<Rightarrow> (c # p) # ps))"

subsection \<open>Files and the generator \<^verbatim>\<open>games\<close>\<close>

text \<open>
  \<^verbatim>\<open>fopen\<close>, \<^verbatim>\<open>fclose\<close> and \<^verbatim>\<open>feof\<close> look the C function up on the library handle and
  call it; the call is recorded with its result. \<open>call_cw_game_read\<close> is the call of the
  function object that \<^verbatim>\<open>games\<close> bound before its loop.
\<close>

definition fopen :: "string \<Rightarrow> string \<Rightarrow> (file_handle, 'n) action" where
  "fopen file_path mode =
     bind libchadwick (\<lambda>lib. \<lambda>(c, w). case lib of
        None \<Rightarrow> (Inl AttributeError, c, w)
      | Some h \<Rightarrow>
          (case c_fopen w file_path mode (native w) of
             (fh, n) \<Rightarrow> (Inr fh, c, w\<lparr>native := n, trace := trace w @ [Fopen file_path mode fh]\<rparr>)))"

definition fclose :: "file_handle \<Rightarrow> (unit, 'n) action" where
  "fclose file_handle =
     bind libchadwick (\<lambda>lib. \<lambda>(c, w). case lib of
        None \<Rightarrow> (Inl AttributeError, c, w)
      | Some h \<Rightarrow>
          (Inr (), c, w\<lparr>native := c_fclose w file_handle (native w),
                         trace := trace w @ [Fclose file_handle]\<rparr>))"

definition feof :: "file_handle \<Rightarrow> (c_int, 'n) action" where
  "feof file_handle =
     bind libchadwick (\<lambda>lib. \<lambda>(c, w). case lib of
        None \<Rightarrow> (Inl AttributeError, c, w)
      | Some h \<Rightarrow>
          (case c_feof w file_handle (native w) of
             (r, n) \<Rightarrow> (Inr r, c, w\<lparr>native := n, trace := trace w @ [Feof file_handle r]\<rparr>)))"

definition call_cw_game_read :: "file_handle \<Rightarrow> (game_ptr, 'n) action" where
  "call_cw_game_read file_handle =
     (\<lambda>(c, w). case c_cw_game_read w file_handle (native w) of
        (r, n) \<Rightarrow> (r, c, w\<lparr>native := n, trace := trace w @ [CwGameRead file_handle r]\<rparr>))"

text \<open>
  A generator is its state between two calls of \<^verbatim>\<open>next\<close>: not started (holding the
  argument), suspended at the \<^verbatim>\<open>yield\<close> (holding the file handle), or finished. One
  call of \<^verbatim>\<open>next\<close> yields a value, ends the iteration, or raises.
\<close>

datatype gen = Fresh string | Suspended file_handle | Finished

datatype outcome = Yield game_ptr | StopIteration | Raise exn

definition games :: "string \<Rightarrow> gen" where
  "games file_path = Fresh file_path"

text \<open>One turn of the \<^verbatim>\<open>while\<close> loop, from its test to the next \<^verbatim>\<open>yield\<close> or the end.\<close>

definition games_loop :: "file_handle \<Rightarrow> 'n st \<Rightarrow> outcome \<times> gen \<times> 'n st" where
  "games_loop file_handle s =
     (case feof file_handle s of
        (Inl e, s1) \<Rightarrow> (Raise e, Finished, s1)
      | (Inr r, s1) \<Rightarrow>
          if sint r \<noteq> 0 then (StopIteration, Finished, s1)
          else
            (case call_cw_game_read file_handle s1 of
               (Inr g, s2) \<Rightarrow> (Yield g, Suspended file_handle, s2)
             | (Inl e, s2) \<Rightarrow>
                 (case fclose file_handle s2 of
                    (Inl e', s3) \<Rightarrow> (Raise e', Finished, s3)
                  | (Inr u, s3) \<Rightarrow> (StopIteration, Finished, s3))))"

definition games_next :: "gen \<Rightarrow> 'n st \<Rightarrow> outcome \<times> gen \<times> 'n st" where
  "games_next g s =
     (case g of
        Fresh file_path \<Rightarrow>
          (case libchadwick s of
             (Inl e, s1) \<Rightarrow> (Raise e, Finished, s1)
           | (Inr None, s1) \<Rightarrow> (Raise AttributeError, Finished, s1)
           | (Inr (Some h), s1) \<Rightarrow>
               (case fopen file_path ''r'' s1 of
                  (Inl e, s2) \<Rightarrow> (Raise e, Finished, s2)
                | (Inr file_handle, s2) \<Rightarrow> games_loop file_handle s2))
      | Suspended file_handle \<Rightarrow> games_loop file_handle s
      | Finished \<Rightarrow> (StopIteration, Finished, s))"

text \<open>
  A consumer asking for at most \<open>n\<close> games: the values of successive \<^verbatim>\<open>next\<close> calls up
  to the first call that yields nothing.
\<close>

fun take_games :: "nat \<Rightarrow> gen \<Rightarrow> 'n st \<Rightarrow> game_ptr list \<times> gen \<times> 'n st" where
  "take_games 0 g s = ([], g, s)"
| "take_games (Suc n) g s =
     (case games_next g s of
        (Yield x, g', s') \<Rightarrow>
          (case take_games n g' s' of (xs, g'', s'') \<Rightarrow> (x # xs, g'', s''))
      | (StopIteration, g', s') \<Rightarrow> ([], g', s')
      | (Raise e, g', s') \<Rightarrow> ([], g', s'))"

text \<open>
  Readings of the trace: \<open>rounds fh xs\<close> is what a run of the loop records for the games
  \<open>xs\<close> it yields, \<open>games_read\<close> are the game pointers the reads returned, and
  \<open>read_after_eof\<close> says that some read follows an end-of-file test that returned nonzero.
\<close>

definition rounds :: "file_handle \<Rightarrow> game_ptr list \<Rightarrow> event list" where
  "rounds fh xs = concat (map (\<lambda>g. [Feof fh 0, CwGameRead fh (Inr g)]) xs)"

fun is_read :: "event \<Rightarrow> bool" where
  "is_read (CwGameRead fh r) = True"
| "is_read ev = False"

fun games_read :: "event list \<Rightarrow> game_ptr list" where
  "games_read [] = []"
| "games_read (CwGameRead fh (Inr g) # evs) = g # games_read evs"
| "games_read (ev # evs) = games_read evs"

fun read_after_eof :: "event list \<Rightarrow> bool" where
  "read_after_eof [] = False"
| "read_after_eof (Feof fh r # evs) =
     (if r \<noteq> 0 then filter is_read evs \<noteq> [] else read_after_eof evs)"
| "read_after_eof (ev # evs) = read_after_eof evs"

subsection \<open>Frames\<close>

text \<open>
  pandas is outside the binding: a frame is the map from its column names to its
  columns, and the three frame operations \<^verbatim>\<open>convert_data_frame_types\<close> uses are
  parameters. \<open>astype\<close> converts a column or raises. \<open>loc_set\<close> is the assignment
  \<^verbatim>\<open>df.loc[:, name] = values\<close>: the exception it raises, if any, and what it leaves in
  the column \<open>name\<close>, the only column it writes. \<open>loc_rows\<close> is the exception, if any,
  of evaluating \<^verbatim>\<open>df.loc[:name]\<close> for printing. The conversion and the assignment are
  both inside the \<^verbatim>\<open>try\<close>: \<open>on_error\<close> is what happens to an exception raised there, the
  handler for a \<^verbatim>\<open>TypeError\<close> and propagation for any other. The result of
  \<^verbatim>\<open>convert_data_frame_types\<close> is the exception raised, if any, and the frame, which
  is changed in place.
\<close>

record ('ty, 'col) pandas =
  astype :: "'ty \<Rightarrow> 'col \<Rightarrow> exn + 'col"
  loc_set :: "'col \<Rightarrow> 'col \<Rightarrow> exn option \<times> 'col"
  loc_rows :: "pystr \<Rightarrow> (pystr \<rightharpoonup> 'col) \<Rightarrow> exn option"

definition on_error ::
    "('ty, 'col) pandas \<Rightarrow> pystr \<Rightarrow> exn \<Rightarrow> (pystr \<rightharpoonup> 'col) \<Rightarrow> exn option \<times> (pystr \<rightharpoonup> 'col)" where
  "on_error pd column_name e df =
     (if e = TypeError then
        (case loc_rows pd column_name df of
           Some e' \<Rightarrow> (Some e', df)
         | None \<Rightarrow> (Some TypeError, df))
      else (Some e, df))"

fun convert_data_frame_types ::
    "('ty, 'col) pandas \<Rightarrow> (pystr \<rightharpoonup> 'col) \<Rightarrow> (pystr \<times> 'ty) list
       \<Rightarrow> exn option \<times> (pystr \<rightharpoonup> 'col)" where
  "convert_data_frame_types pd df [] = (None, df)"
| "convert_data_frame_types pd df ((column_name, data_type_conversion) # rest) =
     (case df column_name of
        None \<Rightarrow> convert_data_frame_types pd df rest
      | Some col \<Rightarrow>
          (case astype pd data_type_conversion col of
             Inl e \<Rightarrow> on_error pd column_name e df
           | Inr col' \<Rightarrow>
               (case loc_set pd col col' of
                  (Some e, left) \<Rightarrow> on_error pd column_name e (df(column_name \<mapsto> left))
                | (None, left) \<Rightarrow>
                    convert_data_frame_types pd (df(column_name \<mapsto> left)) rest)))"

text \<open>
  Two notions used to state what the constructor leaves in the flag arrays:
  \<open>first_pos xs x\<close> is the position of the first \<open>x\<close> in \<open>xs\<close>, and \<open>switch_on hs es f\<close>
  is the world after \<^verbatim>\<open>set_event_field(f)\<close> when the standard headers read \<open>hs\<close>, the
  extended ones \<open>es\<close>, and \<open>f\<close> is among them (lemma \<open>set_event_field_switch_on\<close>).
\<close>

definition first_pos :: "'a list \<Rightarrow> 'a \<Rightarrow> nat" where
  "first_pos xs x = length (takeWhile (\<lambda>y. y \<noteq> x) xs)"

definition switch_on :: "pystr list \<Rightarrow> pystr list \<Rightarrow> pystr \<Rightarrow> 'n world \<Rightarrow> 'n world" where
  "switch_on hs es f w =
     (if f \<in> set hs then w\<lparr>sym_fields := (sym_fields w)(first_pos hs f := 1)\<rparr>
      else w\<lparr>sym_ext_fields := (sym_ext_fields w)(first_pos es f := 1)\<rparr>)"

section \<open>A small library for the examples\<close>

text \<open>
  Standard row \<open>i\<close> is named \<^verbatim>\<open>S\<close> followed by \<open>i\<close> strokes and extended row \<open>i\<close>
  \<^verbatim>\<open>X\<close> followed by \<open>i\<close> strokes; the library starts with the first two standard fields
  switched on. \<open>demo\<close> is the instance constructed on it. Its one file holds the games
  7 and 8: \<open>native\<close> is the list of games still to read and whether the end of the file
  was met; a read at the end returns the null pointer. \<open>twin_world\<close> is the same library
  with every row of both tables named \<^verbatim>\<open>S\<close>, and \<open>broken_world\<close> one whose reader raises.
\<close>

definition row_name :: "char \<Rightarrow> nat \<Rightarrow> string" where
  "row_name t i = t # replicate i CHR ''I''"

definition demo_world :: "(game_ptr list \<times> bool) world" where
  "demo_world =
     \<lparr>resolves = (\<lambda>p. p = ''libchadwick2.so''),
      sym_cwevent_field_data = (\<lambda>i. \<lparr>header = row_name CHR ''S'' i\<rparr>),
      sym_fields = (\<lambda>i. if i < 2 then 1 else 0),
      sym_cwevent_ext_field_data = (\<lambda>i. \<lparr>header = row_name CHR ''X'' i\<rparr>),
      sym_ext_fields = (\<lambda>i. 0),
      c_fopen = (\<lambda>path mode n. (Some 1, n)),
      c_feof = (\<lambda>fh (gs, eof). (if eof then 1 else 0, (gs, eof))),
      c_fclose = (\<lambda>fh n. n),
      c_cw_game_read = (\<lambda>fh (gs, eof). case gs of [] \<Rightarrow> (Inr 0, ([], True))
                                         | g # gs' \<Rightarrow> (Inr g, (gs', eof))),
      native = ([7, 8], False),
      trace = []\<rparr>"

definition twin_world :: "(game_ptr list \<times> bool) world" where
  "twin_world = demo_world\<lparr>sym_cwevent_field_data := (\<lambda>i. \<lparr>header = ''S''\<rparr>),
                           sym_cwevent_ext_field_data := (\<lambda>i. \<lparr>header = ''S''\<rparr>)\<rparr>"

definition broken_world :: "(game_ptr list \<times> bool) world" where
  "broken_world = demo_world\<lparr>c_cw_game_read := (\<lambda>fh n. (Inl (Native 5), n))\<rparr>"

definition demo :: Chadwick where
  "demo = \<lparr>dll = Some (CDLL ''libchadwick2.so''), library_path = ''libchadwick2.so''\<rparr>"

text \<open>
  An example of pandas: a column is its dtype name and its values, \<^verbatim>\<open>astype\<close> renames
  the dtype and refuses the dtype \<^verbatim>\<open>bad\<close>, and the assignment stores the new column but
  raises, leaving the column as it was, when the new dtype is \<^verbatim>\<open>str\<close> and the old one
  is not.
\<close>

definition demo_pd :: "(string, string \<times> int list) pandas" where
  "demo_pd = \<lparr>astype = (\<lambda>t col. if t = ''bad'' then Inl TypeError else Inr (t, snd col)),
              loc_set = (\<lambda>old new. if fst new = ''str'' \<and> fst old \<noteq> ''str''
                                     then (Some TypeError, old) else (None, new)),
              loc_rows = (\<lambda>name df. None)\<rparr>"

definition demo_df :: "pystr \<rightharpoonup> string \<times> int list" where
  "demo_df = [ascii ''INN_CT'' \<mapsto> (''f8'', [1, 2]), ascii ''GAME_ID'' \<mapsto> (''f8'', [0, 0])]"

definition demo_types :: "(pystr \<times> string) list" where
  "demo_types = [(ascii ''INN_CT'', ''int''), (ascii ''OUTS_CT'', ''int'')]"

definition demo_str_types :: "(pystr \<times> string) list" where
  "demo_str_types = [(ascii ''INN_CT'', ''str'')]"

text \<open>The worlds the constructor leaves behind, and the header names of the example library.\<close>

definition demo_made :: "(game_ptr list \<times> bool) world" where
  "demo_made = snd (snd (Chadwick_init ''libchadwick2.so'' demo_world))"

definition twin_made :: "(game_ptr list \<times> bool) world" where
  "twin_made = snd (snd (Chadwick_init ''libchadwick2.so'' twin_world))"

definition demo_names :: "pystr list" where
  "demo_names = map (\<lambda>i. ascii (row_name CHR ''S'' i)) [0..<FIELDS_COUNT]
                @ map (\<lambda>i. ascii (row_name CHR ''X'' i)) [0..<EXT_FIELDS_COUNT]"

section \<open>Properties\<close>

subsection \<open>Methods on a loaded instance\<close>

lemma libchadwick_loaded: "dll c = Some h \<Longrightarrow> libchadwick (c, w) = (Inr (Some h), c, w)"
  by (simp add: libchadwick_def bind_def)

lemma libchadwick_fresh:
  "dll c = None \<Longrightarrow> libchadwick (c, w) =
     (if resolves w (library_path c)
      then (Inr (Some (CDLL (library_path c))), c\<lparr>dll := Some (CDLL (library_path c))\<rparr>,
            w\<lparr>trace := trace w @ [LoadLibrary (library_path c)]\<rparr>)
      else (Inl OSError, c, w\<lparr>trace := trace w @ [LoadLibrary (library_path c)]\<rparr>))"
  by (simp add: libchadwick_def load_shared_library_def bind_def emit_def)

lemma trace_grows: "w\<lparr>trace := trace w @ [ev]\<rparr> \<noteq> w" "w \<noteq> w\<lparr>trace := trace w @ [ev]\<rparr>"
proof -
  show a: "w\<lparr>trace := trace w @ [ev]\<rparr> \<noteq> w"
  proof
    assume "w\<lparr>trace := trace w @ [ev]\<rparr> = w"
    then have "trace (w\<lparr>trace := trace w @ [ev]\<rparr>) = trace w" by simp
    then show False by simp
  qed
  then show "w \<noteq> w\<lparr>trace := trace w @ [ev]\<rparr>" by metis
qed

lemma cwevent_field_data_loaded:
  "dll c = Some h \<Longrightarrow> cwevent_field_data (c, w) = (Inr (map (sym_cwevent_field_data w) [0..<FIELDS_COUNT]), c, w)"
  by (simp add: cwevent_field_data_def bind_def libchadwick_loaded in_dll_def)

lemma cwevent_fields_loaded:
  "dll c = Some h \<Longrightarrow> cwevent_fields (c, w) = (Inr (map (sym_fields w) [0..<FIELDS_COUNT]), c, w)"
  by (simp add: cwevent_fields_def bind_def libchadwick_loaded in_dll_def)

lemma cwevent_ext_field_data_loaded:
  "dll c = Some h \<Longrightarrow> cwevent_ext_field_data (c, w) = (Inr (map (sym_cwevent_ext_field_data w) [0..<EXT_FIELDS_COUNT]), c, w)"
  by (simp add: cwevent_ext_field_data_def bind_def libchadwick_loaded in_dll_def)

lemma cwevent_ext_fields_loaded:
  "dll c = Some h \<Longrightarrow> cwevent_ext_fields (c, w) = (Inr (map (sym_ext_fields w) [0..<EXT_FIELDS_COUNT]), c, w)"
  by (simp add: cwevent_ext_fields_def bind_def libchadwick_loaded in_dll_def)

lemma cwevent_headers_loaded:
  "dll c = Some h \<Longrightarrow> cwevent_headers (c, w) =
     (decode_all (map (\<lambda>i. header (sym_cwevent_field_data w i)) [0..<FIELDS_COUNT]), c, w)"
  by (simp add: cwevent_headers_def bind_def cwevent_field_data_loaded lift_def comp_def)

lemma cwevent_ext_headers_loaded:
  "dll c = Some h \<Longrightarrow> cwevent_ext_headers (c, w) =
     (decode_all (map (\<lambda>i. header (sym_cwevent_ext_field_data w i)) [0..<EXT_FIELDS_COUNT]), c, w)"
  by (simp add: cwevent_ext_headers_def bind_def cwevent_ext_field_data_loaded lift_def comp_def)

lemma cwevent_headers_same:
  assumes "cwevent_headers (c, w) = (r, c', w)" shows "dll c \<noteq> None"
proof
  assume n: "dll c = None"
  show False
  proof (cases "resolves w (library_path c)")
    case True
    with n assms trace_grows [of w] show False
      by (auto simp: cwevent_headers_def cwevent_field_data_def bind_def libchadwick_fresh in_dll_def lift_def split: prod.splits sum.splits)
  next
    case False
    with n assms trace_grows [of w] show False
      by (auto simp: cwevent_headers_def cwevent_field_data_def bind_def libchadwick_fresh in_dll_def lift_def split: prod.splits sum.splits)
  qed
qed

subsection \<open>Splitting and dictionaries\<close>

lemma split_not_Nil: "split sep s \<noteq> []"
  by (induction s) (auto split: list.splits)

lemma join_split: "join sep (split sep s) = s"
proof (induction s)
  case Nil
  show ?case by simp
next
  case (Cons c cs)
  obtain p ps where sp: "split sep cs = p # ps"
    using split_not_Nil [of sep cs] by (cases "split sep cs") auto
  with Cons show ?case by (cases ps) auto
qed

lemma split_pieces: "p \<in> set (split sep s) \<Longrightarrow> sep \<notin> set p"
proof (induction s arbitrary: p)
  case Nil
  then show ?case by simp
next
  case (Cons c cs)
  obtain q qs where sp: "split sep cs = q # qs"
    using split_not_Nil [of sep cs] by (cases "split sep cs") auto
  with Cons show ?case by (auto split: if_splits)
qed

lemma length_split: "length (split sep s) = Suc (count_list s sep)"
proof (induction s)
  case Nil
  show ?case by simp
next
  case (Cons c cs)
  obtain q qs where sp: "split sep cs = q # qs"
    using split_not_Nil [of sep cs] by (cases "split sep cs") auto
  with Cons show ?case by auto
qed

lemma remove_char_free: "c \<notin> set (remove_char c s)"
  by (simp add: remove_char_def)

lemma fold_update_map_of:
  "map_of (fold (\<lambda>(k, v) d. AList.update k v d) ps acc) = map_of acc ++ map_of (rev ps)"
proof (induction ps arbitrary: acc)
  case Nil
  show ?case by simp
next
  case (Cons p ps)
  obtain k v where p: "p = (k, v)" by (cases p)
  show ?case
    by (rule ext) (simp add: p Cons update_conv' map_add_def split: option.splits)
qed

lemma map_of_dict: "map_of (dict ps) = map_of (rev ps)"
  by (simp add: dict_def fold_update_map_of)

lemma fold_update_length:
  "length (fold (\<lambda>(k, v) d. AList.update k v d) ps acc) \<le> length acc + length ps"
proof (induction ps arbitrary: acc)
  case Nil
  show ?case by simp
next
  case (Cons p ps)
  obtain k v where p: "p = (k, v)" by (cases p)
  have "length (AList.update k v acc) \<le> Suc (length acc)"
    by (induction acc) auto
  with Cons [of "AList.update k v acc"] show ?case by (simp add: p)
qed

lemma length_dict: "length (dict ps) \<le> length ps"
  using fold_update_length [of ps "[]"] by (simp add: dict_def)

lemma fold_update_keys:
  "fst ` set (fold (\<lambda>(k, v) d. AList.update k v d) ps acc) = fst ` set acc \<union> fst ` set ps"
proof (induction ps arbitrary: acc)
  case Nil
  show ?case by simp
next
  case (Cons p ps)
  obtain k v where p: "p = (k, v)" by (cases p)
  show ?case by (simp add: p Cons dom_update)
qed

lemma keys_dict: "fst ` set (dict ps) = fst ` set ps"
  using fold_update_keys [of ps "[]"] by (simp add: dict_def)

lemma fold_update_distinct:
  "distinct (map fst acc) \<Longrightarrow> distinct (map fst (fold (\<lambda>(k, v) d. AList.update k v d) ps acc))"
proof (induction ps arbitrary: acc)
  case Nil
  then show ?case by simp
next
  case (Cons p ps)
  obtain k v where p: "p = (k, v)" by (cases p)
  from Cons show ?case by (simp add: p distinct_update)
qed

lemma distinct_dict: "distinct (map fst (dict ps))"
  using fold_update_distinct [of "[]" ps] by (simp add: dict_def)

lemma map_of_rev_last:
  "i < length ps \<Longrightarrow> \<forall>j. i < j \<and> j < length ps \<longrightarrow> fst (ps ! j) \<noteq> fst (ps ! i)
     \<Longrightarrow> map_of (rev ps) (fst (ps ! i)) = Some (snd (ps ! i))"
proof (induction ps arbitrary: i)
  case Nil
  then show ?case by simp
next
  case (Cons p ps)
  show ?case
  proof (cases i)
    case 0
    have "fst p \<notin> fst ` set ps"
    proof
      assume "fst p \<in> fst ` set ps"
      then obtain q where "q \<in> set ps" "fst q = fst p" by auto
      then obtain j where "j < length ps" "ps ! j = q" by (auto simp: in_set_conv_nth)
      with Cons.prems(2) 0 \<open>fst q = fst p\<close> show False
        by (auto dest: spec [of _ "Suc j"])
    qed
    then have "map_of (rev ps) (fst p) = None"
      by (simp add: map_of_eq_None_iff)
    with 0 show ?thesis by (simp add: map_add_def)
  next
    case (Suc n)
    have a: "n < length ps" using Cons.prems(1) Suc by simp
    have b: "\<forall>j. n < j \<and> j < length ps \<longrightarrow> fst (ps ! j) \<noteq> fst (ps ! n)"
    proof (intro allI impI)
      fix j assume "n < j \<and> j < length ps"
      with Cons.prems(2) [rule_format, of "Suc j"] Suc show "fst (ps ! j) \<noteq> fst (ps ! n)" by simp
    qed
    from Cons.IH [OF a b] Suc show ?thesis by (simp add: map_add_def)
  qed
qed

lemma push_Inr: "push c (Inr xs) = Inr (c # xs)"
  by (simp add: push_def)

lemma utf8_ascii: "\<forall>b \<in> set bs. b < 128 \<Longrightarrow> utf8 bs = Inr bs"
proof (induction bs)
  case Nil
  show ?case by simp
next
  case (Cons b bs)
  then have "b < 128" and "utf8 bs = Inr bs" by simp_all
  then show ?case by (simp add: push_Inr)
qed

lemma decode_ascii: "\<forall>b \<in> set bs. of_char b < (128::nat) \<Longrightarrow> decode bs = Inr (ascii bs)"
  by (simp add: decode_def ascii_def utf8_ascii)


lemma dicticize_explicit:
  "dicticize_event_string e (Some hs) s =
     (case listicize_event_string e of Inl x \<Rightarrow> (Inl x, s) | Inr items \<Rightarrow> (Inr (dict (zip hs items)), s))"
  by (simp add: dicticize_event_string_def bind_def ret_def lift_def split: sum.splits)

lemma dicticize_default:
  "dicticize_event_string e None = bind active_headers (\<lambda>hs. dicticize_event_string e (Some hs))"
  by (simp add: dicticize_event_string_def bind_def ret_def fun_eq_iff split: sum.splits prod.splits)

lemma dict_values: "(k, v) \<in> set (dict ps) \<Longrightarrow> v \<in> snd ` set ps"
proof -
  assume a: "(k, v) \<in> set (dict ps)"
  have "map_of (dict ps) k = Some v" using a distinct_dict [of ps] by simp
  then have "map_of (rev ps) k = Some v" by (simp add: map_of_dict)
  then have "(k, v) \<in> set (rev ps)" by (rule map_of_SomeD)
  then show ?thesis by force
qed


text \<open>
  C1, as the code has it. A record whose bytes decode is cut at every comma, also at
  a comma between double quotes; the double quotes are then removed from every piece and
  the pieces are paired in order with the header names, which are the caller's list or,
  without one, the active headers. The pieces are the comma-free stretches of the
  text: joined by commas they give the text back, and there is one more of them than
  there are commas.
\<close>

theorem dicticize_event_string_cuts_at_every_comma:
  assumes "decode e = Inr t"
  shows "dicticize_event_string e (Some hs) s
           = (Inr (dict (zip hs (map (remove_char dquote) (split comma t)))), s)
       \<and> dicticize_event_string e None
           = bind active_headers (\<lambda>hs. dicticize_event_string e (Some hs))
       \<and> join comma (split comma t) = t
       \<and> (\<forall>p \<in> set (split comma t). comma \<notin> set p)
       \<and> length (split comma t) = Suc (count_list t comma)
       \<and> (\<forall>(k, v) \<in> set (dict (zip hs (map (remove_char dquote) (split comma t)))).
             dquote \<notin> set v)"
proof -
  let ?d = "dict (zip hs (map (remove_char dquote) (split comma t)))"
  have "dquote \<notin> set v" if "(k, v) \<in> set ?d" for k v
  proof -
    from that have "v \<in> snd ` set (zip hs (map (remove_char dquote) (split comma t)))"
      by (rule dict_values)
    then have "v \<in> set (map (remove_char dquote) (split comma t))"
      by (auto dest: set_zip_rightD)
    then show ?thesis by (auto simp: remove_char_free)
  qed
  then show ?thesis using assms
    by (auto simp add: dicticize_explicit dicticize_default listicize_event_string_def
          join_split split_pieces length_split)
qed

theorem dicticize_event_string_cuts_at_every_comma_witness:
  "decode (''G1,'' @ CHR 0x22 # ''K'' @ [CHR 0x22]) = Inr (ascii ''G1,'' @ dquote # ascii ''K'' @ [dquote])
   \<and> dicticize_event_string (''G1,'' @ CHR 0x22 # ''K'' @ [CHR 0x22])
        (Some [ascii ''GAME_ID'', ascii ''EVENT_TX'']) (demo, demo_world)
      = (Inr [(ascii ''GAME_ID'', ascii ''G1''), (ascii ''EVENT_TX'', ascii ''K'')],
         demo, demo_world)"
proof -
  let ?e = "''G1,'' @ CHR 0x22 # ''K'' @ [CHR 0x22]"
  let ?t = "ascii ''G1,'' @ dquote # ascii ''K'' @ [dquote]"
  have h: "decode ?e = Inr ?t" by code_simp
  have v: "dict (zip [ascii ''GAME_ID'', ascii ''EVENT_TX'']
             (map (remove_char dquote) (split comma ?t)))
           = [(ascii ''GAME_ID'', ascii ''G1''), (ascii ''EVENT_TX'', ascii ''K'')]"
    by code_simp
  from dicticize_event_string_cuts_at_every_comma
         [OF h, of "[ascii ''GAME_ID'', ascii ''EVENT_TX'']" "(demo, demo_world)"]
  have "dicticize_event_string ?e (Some [ascii ''GAME_ID'', ascii ''EVENT_TX''])
          (demo, demo_world)
        = (Inr (dict (zip [ascii ''GAME_ID'', ascii ''EVENT_TX'']
             (map (remove_char dquote) (split comma ?t)))), demo, demo_world)"
    by (rule conjunct1)
  with h v show ?thesis by simp
qed

text \<open>
  C1 as stated fails on a quoted field with a comma in it: the record
  \<^verbatim>\<open>"a,b",c\<close> has the two fields \<^verbatim>\<open>a,b\<close> and \<^verbatim>\<open>c\<close>, and the code pairs the headers
  with \<^verbatim>\<open>a\<close> and \<^verbatim>\<open>b\<close>.
\<close>

theorem quoted_comma_counterexample:
  "fst (dicticize_event_string (CHR 0x22 # ''a,b'' @ CHR 0x22 # '',c'')
          (Some [ascii ''K1'', ascii ''K2'']) (demo, demo_world))
     = Inr [(ascii ''K1'', ascii ''a''), (ascii ''K2'', ascii ''b'')]
   \<and> decode (CHR 0x22 # ''a,b'' @ CHR 0x22 # '',c'')
     = Inr (dquote # ascii ''a,b'' @ dquote # ascii '',c'')
   \<and> dict (zip [ascii ''K1'', ascii ''K2'']
         (quoted_fields False (dquote # ascii ''a,b'' @ dquote # ascii '',c'')))
     = [(ascii ''K1'', ascii ''a,b''), (ascii ''K2'', ascii ''c'')]"
  by (simp add: dicticize_explicit) code_simp

text \<open>
  C9. When the record decodes, the mapping of \<^verbatim>\<open>dicticize_event_string\<close> has at most
  as many entries as there are headers and as there are comma-separated fields: its
  keys are the headers that have a field, the headers or fields in excess are dropped
  without an error, and a header name that occurs again has the value of its last
  occurrence.
\<close>

theorem dicticize_event_string_size_and_last_wins:
  assumes "listicize_event_string e = Inr items"
  shows "dicticize_event_string e (Some hs) s = (Inr (dict (zip hs items)), s)
       \<and> length (dict (zip hs items)) \<le> min (length hs) (length items)
       \<and> fst ` set (dict (zip hs items)) = set (take (length items) hs)
       \<and> distinct (map fst (dict (zip hs items)))
       \<and> (\<forall>i < min (length hs) (length items).
             (\<forall>j. i < j \<and> j < min (length hs) (length items) \<longrightarrow> hs ! j \<noteq> hs ! i)
             \<longrightarrow> map_of (dict (zip hs items)) (hs ! i) = Some (items ! i))"
proof -
  have a: "dicticize_event_string e (Some hs) s = (Inr (dict (zip hs items)), s)"
    using assms by (simp add: dicticize_explicit)
  have b: "length (dict (zip hs items)) \<le> min (length hs) (length items)"
    using length_dict [of "zip hs items"] by simp
  have c: "fst ` set (dict (zip hs items)) = set (take (length items) hs)"
  proof -
    have "fst ` set (dict (zip hs items)) = set (map fst (zip hs items))"
      by (simp add: keys_dict)
    also have "\<dots> = set (take (min (length hs) (length items)) hs)"
      by (simp only: map_fst_zip_take)
    also have "\<dots> = set (take (length items) hs)"
      by (simp add: min_def)
    finally show ?thesis .
  qed
  have d: "map_of (dict (zip hs items)) (hs ! i) = Some (items ! i)"
    if i: "i < min (length hs) (length items)"
    and l: "\<forall>j. i < j \<and> j < min (length hs) (length items) \<longrightarrow> hs ! j \<noteq> hs ! i" for i
  proof -
    from i have "i < length (zip hs items)" by simp
    moreover have "\<forall>j. i < j \<and> j < length (zip hs items)
                     \<longrightarrow> fst (zip hs items ! j) \<noteq> fst (zip hs items ! i)"
      using i l by simp
    ultimately have "map_of (rev (zip hs items)) (fst (zip hs items ! i))
                       = Some (snd (zip hs items ! i))"
      by (rule map_of_rev_last)
    with i show ?thesis by (simp add: map_of_dict)
  qed
  from a b c d distinct_dict [of "zip hs items"] show ?thesis by blast
qed

theorem dicticize_event_string_size_and_last_wins_witness:
  "listicize_event_string ''1,2,3,4'' = Inr [ascii ''1'', ascii ''2'', ascii ''3'', ascii ''4'']
   \<and> dicticize_event_string ''1,2,3,4'' (Some [ascii ''A'', ascii ''B'', ascii ''A''])
        (demo, demo_world)
      = (Inr [(ascii ''A'', ascii ''3''), (ascii ''B'', ascii ''2'')], demo, demo_world)
   \<and> length [(ascii ''A'', ascii ''3''), (ascii ''B'', ascii ''2'')]
      \<le> min (length [ascii ''A'', ascii ''B'', ascii ''A''])
            (length [ascii ''1'', ascii ''2'', ascii ''3'', ascii ''4''])"
proof -
  let ?items = "[ascii ''1'', ascii ''2'', ascii ''3'', ascii ''4'']"
  let ?hs = "[ascii ''A'', ascii ''B'', ascii ''A'']"
  have h: "listicize_event_string ''1,2,3,4'' = Inr ?items" by code_simp
  have v: "dict (zip ?hs ?items) = [(ascii ''A'', ascii ''3''), (ascii ''B'', ascii ''2'')]"
    by code_simp
  from dicticize_event_string_size_and_last_wins [OF h, of ?hs "(demo, demo_world)"]
  have "dicticize_event_string ''1,2,3,4'' (Some ?hs) (demo, demo_world)
          = (Inr (dict (zip ?hs ?items)), demo, demo_world)
        \<and> length (dict (zip ?hs ?items)) \<le> min (length ?hs) (length ?items)"
    by blast
  with h v show ?thesis by simp
qed

subsection \<open>Header names and flags\<close>

lemma index_first_pos: "x \<in> set xs \<Longrightarrow> index xs x = Inr (first_pos xs x)"
  by (induction xs) (auto simp: first_pos_def)

lemma first_pos_less: "x \<in> set xs \<Longrightarrow> first_pos xs x < length xs"
  unfolding first_pos_def by (induction xs) auto

lemma nth_first_pos: "x \<in> set xs \<Longrightarrow> xs ! first_pos xs x = x"
  unfolding first_pos_def by (induction xs) auto

lemma first_pos_first: "x \<notin> set (take (first_pos xs x) xs)"
  unfolding first_pos_def by (induction xs) auto

lemma first_pos_nth: "i < length xs \<Longrightarrow> xs ! i \<notin> set (take i xs) \<Longrightarrow> first_pos xs (xs ! i) = i"
proof (induction xs arbitrary: i)
  case Nil
  then show ?case by simp
next
  case (Cons y ys)
  show ?case
  proof (cases i)
    case 0
    then show ?thesis by (simp add: first_pos_def)
  next
    case (Suc n)
    with Cons.prems have "n < length ys" "ys ! n \<notin> set (take n ys)" "ys ! n \<noteq> y" by auto
    with Cons.IH [of n] Suc show ?thesis by (simp add: first_pos_def)
  qed
qed

lemma length_decode_all: "decode_all bs = Inr ts \<Longrightarrow> length ts = length bs"
  by (induction bs arbitrary: ts) (auto split: sum.splits)

lemma decode_all_ascii:
  "\<forall>b \<in> set bs. \<forall>ch \<in> set b. of_char ch < (128::nat) \<Longrightarrow> decode_all bs = Inr (map ascii bs)"
  by (induction bs) (simp_all add: decode_ascii)

lemma cwevent_headers_reads:
  assumes "cwevent_headers (c, w) = (Inr hs, c, w)"
  shows "dll c \<noteq> None"
    and "decode_all (map (\<lambda>i. header (sym_cwevent_field_data w i)) [0..<FIELDS_COUNT]) = Inr hs"
    and "length hs = FIELDS_COUNT"
proof -
  show d: "dll c \<noteq> None" using assms by (rule cwevent_headers_same)
  then obtain h where "dll c = Some h" by auto
  from cwevent_headers_loaded [OF this, of w] assms
  show r: "decode_all (map (\<lambda>i. header (sym_cwevent_field_data w i)) [0..<FIELDS_COUNT]) = Inr hs"
    by simp
  from length_decode_all [OF r] show "length hs = FIELDS_COUNT" by simp
qed

lemma cwevent_ext_headers_same:
  assumes "cwevent_ext_headers (c, w) = (r, c', w)" shows "dll c \<noteq> None"
proof
  assume n: "dll c = None"
  show False
  proof (cases "resolves w (library_path c)")
    case True
    with n assms trace_grows [of w] show False
      by (auto simp: cwevent_ext_headers_def cwevent_ext_field_data_def bind_def
            libchadwick_fresh in_dll_def lift_def split: prod.splits sum.splits)
  next
    case False
    with n assms trace_grows [of w] show False
      by (auto simp: cwevent_ext_headers_def cwevent_ext_field_data_def bind_def
            libchadwick_fresh in_dll_def lift_def split: prod.splits sum.splits)
  qed
qed

lemma cwevent_ext_headers_reads:
  assumes "cwevent_ext_headers (c, w) = (Inr es, c, w)"
  shows "decode_all (map (\<lambda>i. header (sym_cwevent_ext_field_data w i)) [0..<EXT_FIELDS_COUNT])
           = Inr es"
    and "length es = EXT_FIELDS_COUNT"
proof -
  have "dll c \<noteq> None" using assms by (rule cwevent_ext_headers_same)
  then obtain h where "dll c = Some h" by auto
  from cwevent_ext_headers_loaded [OF this, of w] assms
  show r: "decode_all (map (\<lambda>i. header (sym_cwevent_ext_field_data w i)) [0..<EXT_FIELDS_COUNT])
             = Inr es"
    by simp
  from length_decode_all [OF r] show "length es = EXT_FIELDS_COUNT" by simp
qed

lemma store_field_loaded:
  "dll c = Some h \<Longrightarrow> idx < FIELDS_COUNT \<Longrightarrow>
     store_field idx v (c, w)
       = (Inr (), c, w\<lparr>sym_fields := (sym_fields w)(idx := word_of_int v)\<rparr>)"
  by (simp add: store_field_def bind_def cwevent_fields_loaded)

lemma store_ext_field_loaded:
  "dll c = Some h \<Longrightarrow> idx < EXT_FIELDS_COUNT \<Longrightarrow>
     store_ext_field idx v (c, w)
       = (Inr (), c, w\<lparr>sym_ext_fields := (sym_ext_fields w)(idx := word_of_int v)\<rparr>)"
  by (simp add: store_ext_field_def bind_def cwevent_ext_fields_loaded)

lemma set_event_field_value_std:
  assumes "cwevent_headers (c, w) = (Inr hs, c, w)" and "f \<in> set hs"
  shows "set_event_field_value f v (c, w)
           = (Inr (), c, w\<lparr>sym_fields := (sym_fields w)(first_pos hs f := word_of_int v)\<rparr>)"
proof -
  from cwevent_headers_reads(1) [OF assms(1)] obtain h where h: "dll c = Some h" by auto
  have "first_pos hs f < FIELDS_COUNT"
    using first_pos_less [OF assms(2)] cwevent_headers_reads(3) [OF assms(1)] by simp
  then show ?thesis
    using assms
    by (simp add: set_event_field_value_def bind_def lift_def index_first_pos
          store_field_loaded [OF h])
qed

lemma set_event_field_value_ext:
  assumes "cwevent_headers (c, w) = (Inr hs, c, w)" and "f \<notin> set hs"
    and "cwevent_ext_headers (c, w) = (Inr es, c, w)" and "f \<in> set es"
  shows "set_event_field_value f v (c, w)
           = (Inr (), c, w\<lparr>sym_ext_fields := (sym_ext_fields w)(first_pos es f := word_of_int v)\<rparr>)"
proof -
  from cwevent_headers_reads(1) [OF assms(1)] obtain h where h: "dll c = Some h" by auto
  have "first_pos es f < EXT_FIELDS_COUNT"
    using first_pos_less [OF assms(4)] cwevent_ext_headers_reads(2) [OF assms(3)] by simp
  then show ?thesis
    using assms
    by (simp add: set_event_field_value_def bind_def lift_def index_first_pos
          store_ext_field_loaded [OF h])
qed

lemma set_event_field_value_neither:
  assumes "cwevent_headers (c, w) = (Inr hs, c, w)" and "f \<notin> set hs"
    and "cwevent_ext_headers (c, w) = (Inr es, c, w)" and "f \<notin> set es"
  shows "set_event_field_value f v (c, w)
           = (Inr (), c, w\<lparr>trace := trace w @ [Warn (not_in_headers f)]\<rparr>)"
  using assms by (simp add: set_event_field_value_def bind_def emit_def)

lemma demo_dll: "dll demo = Some (CDLL ''libchadwick2.so'')"
  by (simp add: demo_def)

lemma twin_rows:
  "sym_cwevent_field_data twin_world i = \<lparr>header = ''S''\<rparr>"
  "sym_cwevent_ext_field_data twin_world i = \<lparr>header = ''S''\<rparr>"
  by (simp_all add: twin_world_def)

lemma demo_rows:
  "sym_cwevent_field_data demo_world i = \<lparr>header = row_name CHR ''S'' i\<rparr>"
  "sym_cwevent_ext_field_data demo_world i = \<lparr>header = row_name CHR ''X'' i\<rparr>"
  by (simp_all add: demo_world_def)

lemma twin_std_headers:
  "cwevent_headers (demo, twin_world)
     = (Inr (replicate FIELDS_COUNT (ascii ''S'')), demo, twin_world)"
proof -
  have "decode_all (map (\<lambda>i. ''S'') [0..<FIELDS_COUNT])
          = Inr (map ascii (map (\<lambda>i. ''S'') [0..<FIELDS_COUNT]))"
    by (rule decode_all_ascii) simp
  then show ?thesis
    by (simp add: cwevent_headers_loaded [OF demo_dll] twin_rows map_replicate_const)
qed

lemma twin_ext_headers:
  "cwevent_ext_headers (demo, twin_world)
     = (Inr (replicate EXT_FIELDS_COUNT (ascii ''S'')), demo, twin_world)"
proof -
  have "decode_all (map (\<lambda>i. ''S'') [0..<EXT_FIELDS_COUNT])
          = Inr (map ascii (map (\<lambda>i. ''S'') [0..<EXT_FIELDS_COUNT]))"
    by (rule decode_all_ascii) simp
  then show ?thesis
    by (simp add: cwevent_ext_headers_loaded [OF demo_dll] twin_rows map_replicate_const)
qed

lemma demo_std_headers:
  "cwevent_headers (demo, demo_world)
     = (Inr (map (\<lambda>i. ascii (row_name CHR ''S'' i)) [0..<FIELDS_COUNT]), demo, demo_world)"
proof -
  have "decode_all (map (row_name CHR ''S'') [0..<FIELDS_COUNT])
          = Inr (map ascii (map (row_name CHR ''S'') [0..<FIELDS_COUNT]))"
    by (rule decode_all_ascii) (simp add: row_name_def)
  then show ?thesis
    by (simp add: cwevent_headers_loaded [OF demo_dll] demo_rows comp_def)
qed

lemma demo_ext_headers:
  "cwevent_ext_headers (demo, demo_world)
     = (Inr (map (\<lambda>i. ascii (row_name CHR ''X'' i)) [0..<EXT_FIELDS_COUNT]), demo, demo_world)"
proof -
  have "decode_all (map (row_name CHR ''X'') [0..<EXT_FIELDS_COUNT])
          = Inr (map ascii (map (row_name CHR ''X'') [0..<EXT_FIELDS_COUNT]))"
    by (rule decode_all_ascii) (simp add: row_name_def)
  then show ?thesis
    by (simp add: cwevent_ext_headers_loaded [OF demo_dll] demo_rows comp_def)
qed

text \<open>
  C4. On an instance whose two header lists read as \<open>hs\<close> and \<open>es\<close>, a field name in
  neither list makes \<^verbatim>\<open>set_event_field_value\<close>, \<^verbatim>\<open>set_event_field\<close> and
  \<^verbatim>\<open>unset_event_field\<close> log the warning and nothing else: the world afterwards is the
  world before with the warning appended to the trace, so both flag arrays are as they
  were.
\<close>

theorem unknown_field_name_only_warns:
  assumes "cwevent_headers (c, w) = (Inr hs, c, w)"
    and "cwevent_ext_headers (c, w) = (Inr es, c, w)"
    and "f \<notin> set hs" and "f \<notin> set es"
  shows "set_event_field_value f v (c, w)
           = (Inr (), c, w\<lparr>trace := trace w @ [Warn (not_in_headers f)]\<rparr>)
       \<and> set_event_field f (c, w)
           = (Inr (), c, w\<lparr>trace := trace w @ [Warn (not_in_headers f)]\<rparr>)
       \<and> unset_event_field f (c, w)
           = (Inr (), c, w\<lparr>trace := trace w @ [Warn (not_in_headers f)]\<rparr>)
       \<and> sym_fields (snd (snd (set_event_field_value f v (c, w)))) = sym_fields w
       \<and> sym_ext_fields (snd (snd (set_event_field_value f v (c, w)))) = sym_ext_fields w"
  using set_event_field_value_neither [OF assms(1) assms(3) assms(2) assms(4)]
  by (simp add: set_event_field_def unset_event_field_def)

theorem unknown_field_name_only_warns_witness:
  "cwevent_headers (demo, twin_world)
     = (Inr (replicate FIELDS_COUNT (ascii ''S'')), demo, twin_world)
   \<and> cwevent_ext_headers (demo, twin_world)
     = (Inr (replicate EXT_FIELDS_COUNT (ascii ''S'')), demo, twin_world)
   \<and> ascii ''T'' \<notin> set (replicate FIELDS_COUNT (ascii ''S''))
   \<and> ascii ''T'' \<notin> set (replicate EXT_FIELDS_COUNT (ascii ''S''))
   \<and> set_event_field_value (ascii ''T'') 1 (demo, twin_world)
     = (Inr (), demo, twin_world\<lparr>trace := trace twin_world @ [Warn (not_in_headers (ascii ''T''))]\<rparr>)"
proof -
  have a: "ascii ''T'' \<notin> set (replicate FIELDS_COUNT (ascii ''S''))"
    by (simp add: ascii_def)
  have b: "ascii ''T'' \<notin> set (replicate EXT_FIELDS_COUNT (ascii ''S''))"
    by (simp add: ascii_def)
  from unknown_field_name_only_warns [OF twin_std_headers twin_ext_headers a b, of 1]
  have "set_event_field_value (ascii ''T'') 1 (demo, twin_world)
     = (Inr (), demo, twin_world\<lparr>trace := trace twin_world @ [Warn (not_in_headers (ascii ''T''))]\<rparr>)"
    by (rule conjunct1)
  with twin_std_headers twin_ext_headers a b show ?thesis by blast
qed

text \<open>
  C10. A field name among the standard headers, whether or not it is also among the
  extended ones, makes \<^verbatim>\<open>set_event_field_value\<close> store the value, as a C int, at the
  first standard row of that name and nowhere else; the extended array is as it was.
  A name only among the extended headers is stored at the first extended row of that
  name and nowhere else.
\<close>

theorem set_event_field_value_writes_first_match:
  assumes "cwevent_headers (c, w) = (Inr hs, c, w)"
  shows "(f \<in> set hs \<longrightarrow>
            (\<exists>i < FIELDS_COUNT. index hs f = Inr i \<and> hs ! i = f \<and> f \<notin> set (take i hs)
               \<and> set_event_field_value f v (c, w)
                   = (Inr (), c, w\<lparr>sym_fields := (sym_fields w)(i := word_of_int v)\<rparr>)
               \<and> sym_ext_fields (snd (snd (set_event_field_value f v (c, w))))
                   = sym_ext_fields w))
       \<and> (f \<notin> set hs \<longrightarrow> cwevent_ext_headers (c, w) = (Inr es, c, w) \<longrightarrow> f \<in> set es \<longrightarrow>
            (\<exists>j < EXT_FIELDS_COUNT. index es f = Inr j \<and> es ! j = f \<and> f \<notin> set (take j es)
               \<and> set_event_field_value f v (c, w)
                   = (Inr (), c, w\<lparr>sym_ext_fields := (sym_ext_fields w)(j := word_of_int v)\<rparr>)
               \<and> sym_fields (snd (snd (set_event_field_value f v (c, w))))
                   = sym_fields w))"
proof (intro conjI impI)
  assume f: "f \<in> set hs"
  have "first_pos hs f < FIELDS_COUNT"
    using first_pos_less [OF f] cwevent_headers_reads(3) [OF assms] by simp
  with set_event_field_value_std [OF assms f, of v] index_first_pos [OF f]
    nth_first_pos [OF f] first_pos_first [of f hs]
  show "\<exists>i < FIELDS_COUNT. index hs f = Inr i \<and> hs ! i = f \<and> f \<notin> set (take i hs)
          \<and> set_event_field_value f v (c, w)
              = (Inr (), c, w\<lparr>sym_fields := (sym_fields w)(i := word_of_int v)\<rparr>)
          \<and> sym_ext_fields (snd (snd (set_event_field_value f v (c, w)))) = sym_ext_fields w"
    by (intro exI [of _ "first_pos hs f"]) simp
next
  assume n: "f \<notin> set hs" and e: "cwevent_ext_headers (c, w) = (Inr es, c, w)"
    and f: "f \<in> set es"
  have "first_pos es f < EXT_FIELDS_COUNT"
    using first_pos_less [OF f] cwevent_ext_headers_reads(2) [OF e] by simp
  with set_event_field_value_ext [OF assms n e f, of v] index_first_pos [OF f]
    nth_first_pos [OF f] first_pos_first [of f es]
  show "\<exists>j < EXT_FIELDS_COUNT. index es f = Inr j \<and> es ! j = f \<and> f \<notin> set (take j es)
          \<and> set_event_field_value f v (c, w)
              = (Inr (), c, w\<lparr>sym_ext_fields := (sym_ext_fields w)(j := word_of_int v)\<rparr>)
          \<and> sym_fields (snd (snd (set_event_field_value f v (c, w)))) = sym_fields w"
    by (intro exI [of _ "first_pos es f"]) simp
qed

theorem set_event_field_value_writes_first_match_witness:
  "cwevent_headers (demo, twin_world)
     = (Inr (replicate FIELDS_COUNT (ascii ''S'')), demo, twin_world)
   \<and> ascii ''S'' \<in> set (replicate FIELDS_COUNT (ascii ''S''))
   \<and> ascii ''S'' \<in> set (replicate EXT_FIELDS_COUNT (ascii ''S''))
   \<and> set_event_field_value (ascii ''S'') 0 (demo, twin_world)
     = (Inr (), demo, twin_world\<lparr>sym_fields := (sym_fields twin_world)(0 := 0)\<rparr>)
   \<and> cwevent_headers (demo, demo_world)
     = (Inr (map (\<lambda>i. ascii (row_name CHR ''S'' i)) [0..<FIELDS_COUNT]), demo, demo_world)
   \<and> ascii ''X'' \<notin> set (map (\<lambda>i. ascii (row_name CHR ''S'' i)) [0..<FIELDS_COUNT])
   \<and> cwevent_ext_headers (demo, demo_world)
     = (Inr (map (\<lambda>i. ascii (row_name CHR ''X'' i)) [0..<EXT_FIELDS_COUNT]), demo, demo_world)
   \<and> ascii ''X'' \<in> set (map (\<lambda>i. ascii (row_name CHR ''X'' i)) [0..<EXT_FIELDS_COUNT])
   \<and> set_event_field_value (ascii ''X'') 1 (demo, demo_world)
     = (Inr (), demo, demo_world\<lparr>sym_ext_fields := (sym_ext_fields demo_world)(0 := 1)\<rparr>)"
proof -
  let ?hs = "replicate FIELDS_COUNT (ascii ''S'')"
  have a: "ascii ''S'' \<in> set ?hs" by (simp add: FIELDS_COUNT_def)
  have b: "ascii ''S'' \<in> set (replicate EXT_FIELDS_COUNT (ascii ''S''))"
    by (simp add: EXT_FIELDS_COUNT_def)
  have z: "index ?hs (ascii ''S'') = Inr 0"
    by (simp add: FIELDS_COUNT_def numeral_eq_Suc)
  from set_event_field_value_writes_first_match
         [OF twin_std_headers, where f = "ascii ''S''" and v = 0] a
  obtain i where "index ?hs (ascii ''S'') = Inr i"
    and "set_event_field_value (ascii ''S'') 0 (demo, twin_world)
           = (Inr (), demo, twin_world\<lparr>sym_fields := (sym_fields twin_world)(i := word_of_int 0)\<rparr>)"
    by blast
  with z have one: "set_event_field_value (ascii ''S'') 0 (demo, twin_world)
     = (Inr (), demo, twin_world\<lparr>sym_fields := (sym_fields twin_world)(0 := 0)\<rparr>)"
    by simp
  let ?ds = "map (\<lambda>i. ascii (row_name CHR ''S'' i)) [0..<FIELDS_COUNT]"
  let ?es = "map (\<lambda>i. ascii (row_name CHR ''X'' i)) [0..<EXT_FIELDS_COUNT]"
  have n: "ascii ''X'' \<notin> set ?ds" by (auto simp: ascii_def row_name_def)
  have "0 \<in> set [0..<EXT_FIELDS_COUNT]" by (simp add: EXT_FIELDS_COUNT_def)
  then have m: "ascii ''X'' \<in> set ?es" by (force simp: row_name_def)
  have "[0..<EXT_FIELDS_COUNT] = 0 # [1..<EXT_FIELDS_COUNT]"
    by (simp add: EXT_FIELDS_COUNT_def upt_conv_Cons)
  then have y: "index ?es (ascii ''X'') = Inr 0" by (simp add: row_name_def)
  from set_event_field_value_writes_first_match
         [OF demo_std_headers, where f = "ascii ''X''" and es = ?es and v = 1] n demo_ext_headers m
  obtain j where "index ?es (ascii ''X'') = Inr j"
    and "set_event_field_value (ascii ''X'') 1 (demo, demo_world)
           = (Inr (), demo, demo_world\<lparr>sym_ext_fields := (sym_ext_fields demo_world)(j := word_of_int 1)\<rparr>)"
    by blast
  with y have two: "set_event_field_value (ascii ''X'') 1 (demo, demo_world)
     = (Inr (), demo, demo_world\<lparr>sym_ext_fields := (sym_ext_fields demo_world)(0 := 1)\<rparr>)"
    by simp
  from twin_std_headers a b one demo_std_headers n demo_ext_headers m two
  show ?thesis by blast
qed

text \<open>
  C6. The binding overlays exactly two descriptor tables and two flag arrays on the
  library: on a loaded instance the standard table reads as 96 rows and the extended
  table as 63 rows, whatever the library holds, and each flag array reads as an array
  of C ints of the length of its table, so that row \<open>i\<close> and flag \<open>i\<close> belong together.
\<close>

theorem two_tables_of_fixed_size:
  assumes "dll c = Some h"
  shows "FIELDS_COUNT = 96 \<and> EXT_FIELDS_COUNT = 63
       \<and> cwevent_field_data (c, w)
           = (Inr (map (sym_cwevent_field_data w) [0..<FIELDS_COUNT]), c, w)
       \<and> cwevent_fields (c, w) = (Inr (map (sym_fields w) [0..<FIELDS_COUNT]), c, w)
       \<and> cwevent_ext_field_data (c, w)
           = (Inr (map (sym_cwevent_ext_field_data w) [0..<EXT_FIELDS_COUNT]), c, w)
       \<and> cwevent_ext_fields (c, w)
           = (Inr (map (sym_ext_fields w) [0..<EXT_FIELDS_COUNT]), c, w)
       \<and> length (map (sym_cwevent_field_data w) [0..<FIELDS_COUNT]) = 96
       \<and> length (map (sym_fields w) [0..<FIELDS_COUNT]) = 96
       \<and> length (map (sym_cwevent_ext_field_data w) [0..<EXT_FIELDS_COUNT]) = 63
       \<and> length (map (sym_ext_fields w) [0..<EXT_FIELDS_COUNT]) = 63"
  using assms
  by (simp add: cwevent_field_data_loaded cwevent_fields_loaded cwevent_ext_field_data_loaded
        cwevent_ext_fields_loaded)
     (simp add: FIELDS_COUNT_def EXT_FIELDS_COUNT_def)

theorem two_tables_of_fixed_size_witness:
  "dll demo = Some (CDLL ''libchadwick2.so'')
   \<and> cwevent_fields (demo, demo_world)
       = (Inr (map (sym_fields demo_world) [0..<FIELDS_COUNT]), demo, demo_world)
   \<and> length (map (sym_fields demo_world) [0..<FIELDS_COUNT]) = 96"
  using two_tables_of_fixed_size [OF demo_dll, of demo_world] demo_dll by simp

subsection \<open>The constructor\<close>

lemma cwevent_headers_tables:
  assumes "cwevent_headers (c, w) = (Inr hs, c, w)"
    and "sym_cwevent_field_data w' = sym_cwevent_field_data w"
  shows "cwevent_headers (c, w') = (Inr hs, c, w')"
proof -
  from cwevent_headers_reads(1) [OF assms(1)] obtain h where h: "dll c = Some h" by auto
  from cwevent_headers_reads(2) [OF assms(1)] assms(2) show ?thesis
    by (simp add: cwevent_headers_loaded [OF h])
qed

lemma cwevent_ext_headers_tables:
  assumes "cwevent_ext_headers (c, w) = (Inr es, c, w)"
    and "sym_cwevent_ext_field_data w' = sym_cwevent_ext_field_data w"
  shows "cwevent_ext_headers (c, w') = (Inr es, c, w')"
proof -
  have "dll c \<noteq> None" using assms(1) by (rule cwevent_ext_headers_same)
  then obtain h where h: "dll c = Some h" by auto
  from cwevent_ext_headers_reads(1) [OF assms(1)] assms(2) show ?thesis
    by (simp add: cwevent_ext_headers_loaded [OF h])
qed

lemma switch_on_frame:
  "sym_cwevent_field_data (switch_on hs es f w) = sym_cwevent_field_data w"
  "sym_cwevent_ext_field_data (switch_on hs es f w) = sym_cwevent_ext_field_data w"
  "trace (switch_on hs es f w) = trace w"
  by (simp_all add: switch_on_def)

lemma fold_switch_on_frame:
  "sym_cwevent_field_data (fold (switch_on hs es) fs w) = sym_cwevent_field_data w"
  "sym_cwevent_ext_field_data (fold (switch_on hs es) fs w) = sym_cwevent_ext_field_data w"
  "trace (fold (switch_on hs es) fs w) = trace w"
  by (induction fs arbitrary: w) (simp_all add: switch_on_frame)

lemma fold_switch_on_fields:
  "sym_fields (fold (switch_on hs es) fs w) i
     = (if \<exists>f \<in> set fs. f \<in> set hs \<and> first_pos hs f = i then 1 else sym_fields w i)"
proof (induction fs arbitrary: w)
  case Nil
  show ?case by simp
next
  case (Cons f fs)
  have "sym_fields (switch_on hs es f w) i
          = (if f \<in> set hs \<and> first_pos hs f = i then 1 else sym_fields w i)"
    by (simp add: switch_on_def)
  with Cons [of "switch_on hs es f w"] show ?case by auto
qed

lemma fold_switch_on_ext_fields:
  "sym_ext_fields (fold (switch_on hs es) fs w) j
     = (if \<exists>f \<in> set fs. f \<notin> set hs \<and> first_pos es f = j then 1 else sym_ext_fields w j)"
proof (induction fs arbitrary: w)
  case Nil
  show ?case by simp
next
  case (Cons f fs)
  have "sym_ext_fields (switch_on hs es f w) j
          = (if f \<notin> set hs \<and> first_pos es f = j then 1 else sym_ext_fields w j)"
    by (simp add: switch_on_def)
  with Cons [of "switch_on hs es f w"] show ?case by auto
qed

lemma set_event_field_switch_on:
  assumes "cwevent_headers (c, w) = (Inr hs, c, w)"
    and "cwevent_ext_headers (c, w) = (Inr es, c, w)"
    and "f \<in> set hs \<union> set es"
  shows "set_event_field f (c, w) = (Inr (), c, switch_on hs es f w)"
proof (cases "f \<in> set hs")
  case True
  from set_event_field_value_std [OF assms(1) True, of 1] True show ?thesis
    by (simp add: set_event_field_def switch_on_def)
next
  case False
  with assms(3) have "f \<in> set es" by simp
  from set_event_field_value_ext [OF assms(1) False assms(2) this, of 1] False show ?thesis
    by (simp add: set_event_field_def switch_on_def)
qed

lemma for_each_set_event_field:
  assumes "cwevent_headers (c, w) = (Inr hs, c, w)"
    and "cwevent_ext_headers (c, w) = (Inr es, c, w)"
    and "set fs \<subseteq> set hs \<union> set es"
  shows "for_each set_event_field fs (c, w) = (Inr (), c, fold (switch_on hs es) fs w)"
  using assms
proof (induction fs arbitrary: w)
  case Nil
  show ?case by (simp add: ret_def)
next
  case (Cons f fs)
  from Cons.prems(3) have f: "f \<in> set hs \<union> set es" and fs: "set fs \<subseteq> set hs \<union> set es"
    by simp_all
  have h: "cwevent_headers (c, switch_on hs es f w) = (Inr hs, c, switch_on hs es f w)"
    by (rule cwevent_headers_tables [OF Cons.prems(1)]) (simp add: switch_on_frame)
  have e: "cwevent_ext_headers (c, switch_on hs es f w) = (Inr es, c, switch_on hs es f w)"
    by (rule cwevent_ext_headers_tables [OF Cons.prems(2)]) (simp add: switch_on_frame)
  from Cons.IH [OF h e fs] set_event_field_switch_on [OF Cons.prems(1) Cons.prems(2) f]
  show ?case by (simp add: bind_def)
qed

lemma set_all_headers_loaded:
  assumes "cwevent_headers (c, w) = (Inr hs, c, w)"
    and "cwevent_ext_headers (c, w) = (Inr es, c, w)"
  shows "set_all_headers (c, w) = (Inr (), c, fold (switch_on hs es) (hs @ es) w)"
proof -
  have "all_headers (c, w) = (Inr (hs @ es), c, w)"
    using assms by (simp add: all_headers_def bind_def ret_def)
  moreover have "for_each set_event_field (hs @ es) (c, w)
                   = (Inr (), c, fold (switch_on hs es) (hs @ es) w)"
    by (rule for_each_set_event_field [OF assms]) simp
  ultimately show ?thesis by (simp add: set_all_headers_def bind_def)
qed

lemma load_shared_library_run:
  "load_shared_library path (c, w)
     = (if resolves w path
        then (Inr (), c\<lparr>dll := Some (CDLL path)\<rparr>, w\<lparr>trace := trace w @ [LoadLibrary path]\<rparr>)
        else (Inl OSError, c, w\<lparr>trace := trace w @ [LoadLibrary path]\<rparr>))"
  by (simp add: load_shared_library_def bind_def emit_def)

lemma Chadwick_init_run:
  assumes "resolves w path"
    and "decode_all (map (\<lambda>i. header (sym_cwevent_field_data w i)) [0..<FIELDS_COUNT]) = Inr hs"
    and "decode_all (map (\<lambda>i. header (sym_cwevent_ext_field_data w i)) [0..<EXT_FIELDS_COUNT])
           = Inr es"
  shows "Chadwick_init path w
           = (Inr (), \<lparr>dll = Some (CDLL path), library_path = path\<rparr>,
              fold (switch_on hs es) (hs @ es) (w\<lparr>trace := trace w @ [LoadLibrary path]\<rparr>))"
proof -
  let ?c = "\<lparr>dll = Some (CDLL path), library_path = path\<rparr>"
  let ?w = "w\<lparr>trace := trace w @ [LoadLibrary path]\<rparr>"
  have d: "dll ?c = Some (CDLL path)" by simp
  have h: "cwevent_headers (?c, ?w) = (Inr hs, ?c, ?w)"
    using assms(2) by (simp add: cwevent_headers_loaded [OF d])
  have e: "cwevent_ext_headers (?c, ?w) = (Inr es, ?c, ?w)"
    using assms(3) by (simp add: cwevent_ext_headers_loaded [OF d])
  from set_all_headers_loaded [OF h e] assms(1) show ?thesis
    by (simp add: Chadwick_init_def bind_def load_shared_library_run)
qed

lemma set_all_headers_raises:
  assumes "dll c = Some h"
    and "set_all_headers (c, w) = (Inr u, c', w')"
  shows "\<exists>hs es.
           decode_all (map (\<lambda>i. header (sym_cwevent_field_data w i)) [0..<FIELDS_COUNT]) = Inr hs
         \<and> decode_all (map (\<lambda>i. header (sym_cwevent_ext_field_data w i)) [0..<EXT_FIELDS_COUNT])
             = Inr es"
proof -
  obtain r1 where r1: "decode_all (map (\<lambda>i. header (sym_cwevent_field_data w i)) [0..<FIELDS_COUNT]) = r1"
    by simp
  obtain r2 where r2: "decode_all (map (\<lambda>i. header (sym_cwevent_ext_field_data w i)) [0..<EXT_FIELDS_COUNT]) = r2"
    by simp
  from assms(2) r1 r2 show ?thesis
    by (cases r1; cases r2)
       (simp_all add: set_all_headers_def all_headers_def bind_def
          cwevent_headers_loaded [OF assms(1)] cwevent_ext_headers_loaded [OF assms(1)])
qed

lemma Chadwick_init_succeeds:
  assumes "Chadwick_init path w = (Inr (), c, w')"
  shows "resolves w path"
    and "\<exists>hs es.
           decode_all (map (\<lambda>i. header (sym_cwevent_field_data w i)) [0..<FIELDS_COUNT]) = Inr hs
         \<and> decode_all (map (\<lambda>i. header (sym_cwevent_ext_field_data w i)) [0..<EXT_FIELDS_COUNT])
             = Inr es"
proof -
  show r: "resolves w path"
    using assms by (auto simp: Chadwick_init_def bind_def load_shared_library_run split: if_splits)
  let ?c = "\<lparr>dll = Some (CDLL path), library_path = path\<rparr>"
  let ?w = "w\<lparr>trace := trace w @ [LoadLibrary path]\<rparr>"
  have d: "dll ?c = Some (CDLL path)" by simp
  from assms r have "set_all_headers (?c, ?w) = (Inr (), c, w')"
    by (simp add: Chadwick_init_def bind_def load_shared_library_run)
  from set_all_headers_raises [OF d this]
  show "\<exists>hs es.
           decode_all (map (\<lambda>i. header (sym_cwevent_field_data w i)) [0..<FIELDS_COUNT]) = Inr hs
         \<and> decode_all (map (\<lambda>i. header (sym_cwevent_ext_field_data w i)) [0..<EXT_FIELDS_COUNT])
             = Inr es"
    by simp
qed

lemma enabled_all_on:
  assumes "length flags = length hs" and "\<forall>x \<in> set flags. x = 1"
  shows "enabled hs flags = hs"
proof -
  have "(\<lambda>(h, x). sint x = 1) p" if "p \<in> set (zip hs flags)" for p
  proof -
    obtain h x where p: "p = (h, x)" by (cases p)
    with that have "x \<in> set flags" by (auto dest: set_zip_rightD)
    with assms(2) have "x = 1" by simp
    with p show ?thesis by simp
  qed
  then have "filter (\<lambda>(h, x). sint x = 1) (zip hs flags) = zip hs flags"
    by (simp only: filter_id_conv) blast
  with assms(1) show ?thesis by (simp add: enabled_def)
qed

lemma distinct_nth_not_before:
  assumes "distinct xs" and "i < length xs"
  shows "xs ! i \<notin> set (take i xs)"
proof
  assume "xs ! i \<in> set (take i xs)"
  then obtain k where "k < length (take i xs)" "take i xs ! k = xs ! i"
    by (auto simp: in_set_conv_nth)
  with assms have "k < i" "xs ! k = xs ! i" "k < length xs" by simp_all
  with assms show False by (auto simp: distinct_conv_nth)
qed

lemma active_headers_loaded:
  assumes "cwevent_headers (c, w) = (Inr hs, c, w)"
    and "cwevent_ext_headers (c, w) = (Inr es, c, w)"
  shows "active_headers (c, w)
           = (Inr (enabled hs (map (sym_fields w) [0..<FIELDS_COUNT])
                   @ enabled es (map (sym_ext_fields w) [0..<EXT_FIELDS_COUNT])), c, w)"
proof -
  from cwevent_headers_reads(1) [OF assms(1)] obtain h where h: "dll c = Some h" by auto
  show ?thesis
    using assms
    by (simp add: active_headers_def bind_def ret_def cwevent_fields_loaded [OF h]
          cwevent_ext_fields_loaded [OF h])
qed

lemma Chadwick_init_made:
  assumes "Chadwick_init path w = (Inr (), c, w')"
  obtains hs es where
    "c = \<lparr>dll = Some (CDLL path), library_path = path\<rparr>"
    "w' = fold (switch_on hs es) (hs @ es) (w\<lparr>trace := trace w @ [LoadLibrary path]\<rparr>)"
    "cwevent_headers (c, w') = (Inr hs, c, w')"
    "cwevent_ext_headers (c, w') = (Inr es, c, w')"
proof -
  from Chadwick_init_succeeds [OF assms] obtain hs es where
    r: "resolves w path"
    and h: "decode_all (map (\<lambda>i. header (sym_cwevent_field_data w i)) [0..<FIELDS_COUNT]) = Inr hs"
    and e: "decode_all (map (\<lambda>i. header (sym_cwevent_ext_field_data w i)) [0..<EXT_FIELDS_COUNT])
              = Inr es"
    by blast
  from Chadwick_init_run [OF r h e] assms
  have c: "c = \<lparr>dll = Some (CDLL path), library_path = path\<rparr>"
    and w': "w' = fold (switch_on hs es) (hs @ es) (w\<lparr>trace := trace w @ [LoadLibrary path]\<rparr>)"
    by simp_all
  have d: "dll c = Some (CDLL path)" using c by simp
  have "cwevent_headers (c, w') = (Inr hs, c, w')"
    using h by (simp add: cwevent_headers_loaded [OF d] w' fold_switch_on_frame)
  moreover have "cwevent_ext_headers (c, w') = (Inr es, c, w')"
    using e by (simp add: cwevent_ext_headers_loaded [OF d] w' fold_switch_on_frame)
  ultimately show ?thesis using c w' that by blast
qed

lemma demo_names_distinct:
  "distinct (map (\<lambda>i. ascii (row_name CHR ''S'' i)) [0..<m]
             @ map (\<lambda>i. ascii (row_name CHR ''X'' i)) [0..<n])"
proof -
  have inj: "inj_on (\<lambda>i. ascii (row_name t i)) A" for t A
  proof (rule inj_onI)
    fix i j assume "ascii (row_name t i) = ascii (row_name t j)"
    then have "length (ascii (row_name t i)) = length (ascii (row_name t j))" by simp
    then show "i = j" by (simp add: ascii_def row_name_def)
  qed
  have "ascii (row_name CHR ''S'' i) \<noteq> ascii (row_name CHR ''X'' j)" for i j
    by (simp add: ascii_def row_name_def)
  then show ?thesis by (auto simp: distinct_map inj)
qed

lemma Chadwick_init_frame:
  assumes "Chadwick_init path w = (Inr (), c, w')"
  shows "sym_cwevent_field_data w' = sym_cwevent_field_data w"
    and "sym_cwevent_ext_field_data w' = sym_cwevent_ext_field_data w"
proof -
  from assms obtain hs es where
    w': "w' = fold (switch_on hs es) (hs @ es) (w\<lparr>trace := trace w @ [LoadLibrary path]\<rparr>)"
    by (rule Chadwick_init_made)
  show "sym_cwevent_field_data w' = sym_cwevent_field_data w"
    and "sym_cwevent_ext_field_data w' = sym_cwevent_ext_field_data w"
    by (simp_all add: w' fold_switch_on_frame)
qed

lemma demo_resolves: "resolves demo_world ''libchadwick2.so''"
  "resolves twin_world ''libchadwick2.so''"
  by (simp_all add: demo_world_def twin_world_def)

lemma demo_constructed:
  "Chadwick_init ''libchadwick2.so'' demo_world = (Inr (), demo, demo_made)"
proof -
  from Chadwick_init_run [OF demo_resolves(1) cwevent_headers_reads(2) [OF demo_std_headers]
         cwevent_ext_headers_reads(1) [OF demo_ext_headers]]
  obtain W where "Chadwick_init ''libchadwick2.so'' demo_world
                    = (Inr (), \<lparr>dll = Some (CDLL ''libchadwick2.so''),
                                 library_path = ''libchadwick2.so''\<rparr>, W)"
    by blast
  then show ?thesis by (simp add: demo_made_def demo_def)
qed

lemma demo_made_trace: "trace demo_made = [LoadLibrary ''libchadwick2.so'']"
proof -
  from demo_constructed obtain hs es where
    m: "demo_made = fold (switch_on hs es) (hs @ es)
                   (demo_world\<lparr>trace := trace demo_world @ [LoadLibrary ''libchadwick2.so'']\<rparr>)"
    by (rule Chadwick_init_made)
  have "trace demo_made = trace demo_world @ [LoadLibrary ''libchadwick2.so'']"
    by (simp only: m fold_switch_on_frame) simp
  then show ?thesis by (simp add: demo_world_def)
qed

lemma demo_made_all_headers:
  "all_headers (demo, demo_made) = (Inr demo_names, demo, demo_made)"
proof -
  have "cwevent_headers (demo, demo_made)
          = (Inr (map (\<lambda>i. ascii (row_name CHR ''S'' i)) [0..<FIELDS_COUNT]), demo, demo_made)"
    by (rule cwevent_headers_tables [OF demo_std_headers])
       (rule Chadwick_init_frame(1) [OF demo_constructed])
  moreover have "cwevent_ext_headers (demo, demo_made)
          = (Inr (map (\<lambda>i. ascii (row_name CHR ''X'' i)) [0..<EXT_FIELDS_COUNT]), demo, demo_made)"
    by (rule cwevent_ext_headers_tables [OF demo_ext_headers])
       (rule Chadwick_init_frame(2) [OF demo_constructed])
  ultimately show ?thesis
    by (simp add: all_headers_def bind_def ret_def demo_names_def)
qed

lemma twin_made_eq:
  "Chadwick_init ''libchadwick2.so'' twin_world = (Inr (), demo, twin_made)"
  "twin_made = fold (switch_on (replicate FIELDS_COUNT (ascii ''S''))
                               (replicate EXT_FIELDS_COUNT (ascii ''S'')))
                 (replicate FIELDS_COUNT (ascii ''S'') @ replicate EXT_FIELDS_COUNT (ascii ''S''))
                 (twin_world\<lparr>trace := trace twin_world @ [LoadLibrary ''libchadwick2.so'']\<rparr>)"
proof -
  note r = Chadwick_init_run [OF demo_resolves(2) cwevent_headers_reads(2) [OF twin_std_headers]
         cwevent_ext_headers_reads(1) [OF twin_ext_headers]]
  from r show "twin_made = fold (switch_on (replicate FIELDS_COUNT (ascii ''S''))
                               (replicate EXT_FIELDS_COUNT (ascii ''S'')))
                 (replicate FIELDS_COUNT (ascii ''S'') @ replicate EXT_FIELDS_COUNT (ascii ''S''))
                 (twin_world\<lparr>trace := trace twin_world @ [LoadLibrary ''libchadwick2.so'']\<rparr>)"
    by (simp add: twin_made_def)
  with r show "Chadwick_init ''libchadwick2.so'' twin_world = (Inr (), demo, twin_made)"
    by (simp add: demo_def)
qed

lemma twin_made_fields: "sym_fields twin_made = (\<lambda>i. if i < 2 then 1 else 0)"
proof
  fix i
  let ?hs = "replicate FIELDS_COUNT (ascii ''S'')"
  let ?es = "replicate EXT_FIELDS_COUNT (ascii ''S'')"
  have p: "first_pos ?hs (ascii ''S'') = 0"
    by (simp add: first_pos_def FIELDS_COUNT_def numeral_eq_Suc)
  have s: "set (?hs @ ?es) = {ascii ''S''}" "set ?hs = {ascii ''S''}"
    by (auto simp: FIELDS_COUNT_def)
  have "sym_fields twin_made i
          = (if \<exists>f \<in> set (?hs @ ?es). f \<in> set ?hs \<and> first_pos ?hs f = i then 1
             else sym_fields (twin_world\<lparr>trace := trace twin_world @ [LoadLibrary ''libchadwick2.so'']\<rparr>) i)"
    by (simp only: twin_made_eq(2) fold_switch_on_fields)
  also have "\<dots> = (if i = 0 then 1 else sym_fields twin_world i)"
    by (simp only: s) (auto simp: p)
  also have "\<dots> = (if i < 2 then 1 else 0)"
    by (simp add: twin_world_def demo_world_def)
  finally show "sym_fields twin_made i = (if i < 2 then 1 else 0)" .
qed

lemma twin_made_ext_fields: "sym_ext_fields twin_made = (\<lambda>j. 0)"
proof
  fix j
  let ?hs = "replicate FIELDS_COUNT (ascii ''S'')"
  let ?es = "replicate EXT_FIELDS_COUNT (ascii ''S'')"
  have s: "set (?hs @ ?es) = {ascii ''S''}" "set ?hs = {ascii ''S''}"
    by (auto simp: FIELDS_COUNT_def)
  have "sym_ext_fields twin_made j
          = (if \<exists>f \<in> set (?hs @ ?es). f \<notin> set ?hs \<and> first_pos ?es f = j then 1
             else sym_ext_fields (twin_world\<lparr>trace := trace twin_world @ [LoadLibrary ''libchadwick2.so'']\<rparr>) j)"
    by (simp only: twin_made_eq(2) fold_switch_on_ext_fields)
  also have "\<dots> = sym_ext_fields twin_world j"
    by (simp only: s) simp
  also have "\<dots> = 0"
    by (simp add: twin_world_def demo_world_def)
  finally show "sym_ext_fields twin_made j = 0" .
qed

lemma twin_made_headers:
  "cwevent_headers (demo, twin_made)
     = (Inr (replicate FIELDS_COUNT (ascii ''S'')), demo, twin_made)"
  "cwevent_ext_headers (demo, twin_made)
     = (Inr (replicate EXT_FIELDS_COUNT (ascii ''S'')), demo, twin_made)"
proof -
  show "cwevent_headers (demo, twin_made)
     = (Inr (replicate FIELDS_COUNT (ascii ''S'')), demo, twin_made)"
    by (rule cwevent_headers_tables [OF twin_std_headers])
       (rule Chadwick_init_frame(1) [OF twin_made_eq(1)])
  show "cwevent_ext_headers (demo, twin_made)
     = (Inr (replicate EXT_FIELDS_COUNT (ascii ''S'')), demo, twin_made)"
    by (rule cwevent_ext_headers_tables [OF twin_ext_headers])
       (rule Chadwick_init_frame(2) [OF twin_made_eq(1)])
qed

lemma twin_enabled:
  "enabled (replicate FIELDS_COUNT (ascii ''S'')) (map (\<lambda>i. if i < 2 then 1 else 0) [0..<FIELDS_COUNT])
     = [ascii ''S'', ascii ''S'']"
  "enabled (replicate EXT_FIELDS_COUNT (ascii ''S'')) (map (\<lambda>i. 0) [0..<EXT_FIELDS_COUNT]) = []"
  by code_simp+

text \<open>
  C3, as the code has it. The constructor itself loads the library: when it succeeds
  the path resolved, the instance holds the handle, and the constructor has recorded
  exactly one load and no warning. From then on the property \<^verbatim>\<open>libchadwick\<close> returns
  that handle of the instance in every world without loading and without changing
  anything. The handle belongs to the instance: each construction loads again.
\<close>

theorem constructor_loads_once_then_reuses:
  assumes "Chadwick_init path w = (Inr (), c, w')"
  shows "resolves w path
       \<and> dll c = Some (CDLL path) \<and> library_path c = path
       \<and> trace w' = trace w @ [LoadLibrary path]
       \<and> (\<forall>w''. libchadwick (c, w'') = (Inr (Some (CDLL path)), c, w''))"
proof -
  from assms obtain hs es where
    c: "c = \<lparr>dll = Some (CDLL path), library_path = path\<rparr>"
    and w': "w' = fold (switch_on hs es) (hs @ es) (w\<lparr>trace := trace w @ [LoadLibrary path]\<rparr>)"
    by (rule Chadwick_init_made)
  have d: "dll c = Some (CDLL path)" using c by simp
  have t: "trace w' = trace w @ [LoadLibrary path]"
    by (simp only: w' fold_switch_on_frame) simp
  have l: "\<forall>w''. libchadwick (c, w'') = (Inr (Some (CDLL path)), c, w'')"
    by (simp add: libchadwick_loaded [OF d])
  from c have "library_path c = path" by simp
  with Chadwick_init_succeeds(1) [OF assms] d t l show ?thesis by blast
qed

theorem constructor_loads_once_then_reuses_witness:
  "Chadwick_init ''libchadwick2.so'' demo_world = (Inr (), demo, demo_made)
   \<and> resolves demo_world ''libchadwick2.so''
   \<and> trace demo_made = trace demo_world @ [LoadLibrary ''libchadwick2.so'']
   \<and> libchadwick (demo, demo_made) = (Inr (Some (CDLL ''libchadwick2.so'')), demo, demo_made)"
  using constructor_loads_once_then_reuses [OF demo_constructed] demo_constructed
  by blast

text \<open>
  C3 as stated fails at once: constructing on the example library succeeds, and the
  load is on the record when the constructor returns, before any other access.
\<close>

theorem constructor_loads_counterexample:
  "fst (Chadwick_init ''libchadwick2.so'' demo_world) = Inr ()
   \<and> trace demo_world = []
   \<and> trace (snd (snd (Chadwick_init ''libchadwick2.so'' demo_world)))
       = [LoadLibrary ''libchadwick2.so'']
   \<and> dll (fst (snd (Chadwick_init ''libchadwick2.so'' demo_world)))
       = Some (CDLL ''libchadwick2.so'')"
  by (simp add: demo_constructed demo_made_trace) (simp add: demo_world_def demo_def)

text \<open>
  C8, as the code has it. After a successful construction both header lists read, and
  if no header name occurs twice in the standard list followed by the extended list,
  every flag of both arrays is 1 and the active headers are all the headers.
\<close>

theorem constructor_switches_all_distinct_fields_on:
  assumes "Chadwick_init path w = (Inr (), c, w')"
  shows "\<exists>hs. all_headers (c, w') = (Inr hs, c, w')
            \<and> (distinct hs \<longrightarrow>
                  (\<forall>i < FIELDS_COUNT. sym_fields w' i = 1)
                \<and> (\<forall>j < EXT_FIELDS_COUNT. sym_ext_fields w' j = 1)
                \<and> active_headers (c, w') = (Inr hs, c, w'))"
proof -
  from assms obtain hs es where
    w': "w' = fold (switch_on hs es) (hs @ es) (w\<lparr>trace := trace w @ [LoadLibrary path]\<rparr>)"
    and h: "cwevent_headers (c, w') = (Inr hs, c, w')"
    and e: "cwevent_ext_headers (c, w') = (Inr es, c, w')"
    by (rule Chadwick_init_made)
  have lh: "length hs = FIELDS_COUNT" by (rule cwevent_headers_reads(3) [OF h])
  have le: "length es = EXT_FIELDS_COUNT" by (rule cwevent_ext_headers_reads(2) [OF e])
  have all: "all_headers (c, w') = (Inr (hs @ es), c, w')"
    using h e by (simp add: all_headers_def bind_def ret_def)
  have on: "(\<forall>i < FIELDS_COUNT. sym_fields w' i = 1)
          \<and> (\<forall>j < EXT_FIELDS_COUNT. sym_ext_fields w' j = 1)
          \<and> active_headers (c, w') = (Inr (hs @ es), c, w')"
    if dist: "distinct (hs @ es)"
  proof -
    have s: "sym_fields w' i = 1" if "i < FIELDS_COUNT" for i
    proof -
      from that lh have i: "i < length hs" by simp
      from dist have "distinct hs" by simp
      from distinct_nth_not_before [OF this i] have "first_pos hs (hs ! i) = i"
        by (rule first_pos_nth [OF i])
      moreover have "hs ! i \<in> set hs" using i by simp
      ultimately have "\<exists>f \<in> set (hs @ es). f \<in> set hs \<and> first_pos hs f = i" by auto
      then show ?thesis by (simp only: w' fold_switch_on_fields if_True)
    qed
    have x: "sym_ext_fields w' j = 1" if "j < EXT_FIELDS_COUNT" for j
    proof -
      from that le have j: "j < length es" by simp
      from dist have "distinct es" by simp
      from distinct_nth_not_before [OF this j] have "first_pos es (es ! j) = j"
        by (rule first_pos_nth [OF j])
      moreover have "es ! j \<in> set es" using j by simp
      moreover from this dist have "es ! j \<notin> set hs" by auto
      ultimately have "\<exists>f \<in> set (hs @ es). f \<notin> set hs \<and> first_pos es f = j" by auto
      then show ?thesis by (simp only: w' fold_switch_on_ext_fields if_True)
    qed
    have "enabled hs (map (sym_fields w') [0..<FIELDS_COUNT]) = hs"
      by (rule enabled_all_on) (auto simp: lh s)
    moreover have "enabled es (map (sym_ext_fields w') [0..<EXT_FIELDS_COUNT]) = es"
      by (rule enabled_all_on) (auto simp: le x)
    ultimately have "active_headers (c, w') = (Inr (hs @ es), c, w')"
      by (simp add: active_headers_loaded [OF h e])
    with s x show ?thesis by blast
  qed
  from all on show ?thesis by blast
qed

theorem constructor_switches_all_distinct_fields_on_witness:
  "Chadwick_init ''libchadwick2.so'' demo_world = (Inr (), demo, demo_made)
   \<and> all_headers (demo, demo_made) = (Inr demo_names, demo, demo_made)
   \<and> distinct demo_names
   \<and> sym_fields demo_made 95 = 1
   \<and> sym_ext_fields demo_made 62 = 1
   \<and> active_headers (demo, demo_made) = (Inr demo_names, demo, demo_made)"
proof -
  from constructor_switches_all_distinct_fields_on [OF demo_constructed]
  obtain hs where a: "all_headers (demo, demo_made) = (Inr hs, demo, demo_made)"
    and b: "distinct hs \<longrightarrow>
              (\<forall>i < FIELDS_COUNT. sym_fields demo_made i = 1)
            \<and> (\<forall>j < EXT_FIELDS_COUNT. sym_ext_fields demo_made j = 1)
            \<and> active_headers (demo, demo_made) = (Inr hs, demo, demo_made)"
    by blast
  from a demo_made_all_headers have hs: "hs = demo_names" by simp
  have d: "distinct demo_names" unfolding demo_names_def by (rule demo_names_distinct)
  from b hs d have "sym_fields demo_made 95 = 1" "sym_ext_fields demo_made 62 = 1"
    "active_headers (demo, demo_made) = (Inr demo_names, demo, demo_made)"
    by (simp_all add: FIELDS_COUNT_def EXT_FIELDS_COUNT_def)
  with demo_constructed demo_made_all_headers d show ?thesis by blast
qed

text \<open>
  C8 as stated fails where a header name occurs twice. In the library whose rows are all
  named \<^verbatim>\<open>S\<close> the constructor succeeds and writes one flag only: standard flag 2 is
  still 0, and two headers are active out of 159.
\<close>

theorem repeated_header_name_counterexample:
  "fst (Chadwick_init ''libchadwick2.so'' twin_world) = Inr ()
   \<and> sym_fields (snd (snd (Chadwick_init ''libchadwick2.so'' twin_world))) 2 = 0
   \<and> fst (active_headers (snd (Chadwick_init ''libchadwick2.so'' twin_world)))
       = Inr [ascii ''S'', ascii ''S'']
   \<and> fst (all_headers (snd (Chadwick_init ''libchadwick2.so'' twin_world)))
       = Inr (replicate 159 (ascii ''S''))"
proof -
  have "fst (active_headers (demo, twin_made)) = Inr [ascii ''S'', ascii ''S'']"
    by (simp add: active_headers_loaded [OF twin_made_headers] twin_made_fields
          twin_made_ext_fields twin_enabled)
  moreover have "fst (all_headers (demo, twin_made)) = Inr (replicate 159 (ascii ''S''))"
    by (simp add: all_headers_def bind_def ret_def twin_made_headers FIELDS_COUNT_def
          EXT_FIELDS_COUNT_def replicate_add [symmetric])
  ultimately show ?thesis by (simp add: twin_made_eq(1) twin_made_fields)
qed

subsection \<open>Frames\<close>

lemma on_error_result:
  "snd (on_error pd n e df) = df" "fst (on_error pd n e df) \<noteq> None"
  by (simp_all add: on_error_def split: option.splits)

lemma convert_absent:
  "df n = None \<Longrightarrow>
     convert_data_frame_types pd df ((n, t) # rest) = convert_data_frame_types pd df rest"
  by simp

lemma convert_converted:
  "df n = Some col \<Longrightarrow> astype pd t col = Inr col' \<Longrightarrow> loc_set pd col col' = (None, left) \<Longrightarrow>
     convert_data_frame_types pd df ((n, t) # rest)
       = convert_data_frame_types pd (df(n \<mapsto> left)) rest"
  by simp

lemma convert_raised_astype:
  "df n = Some col \<Longrightarrow> astype pd t col = Inl e \<Longrightarrow>
     convert_data_frame_types pd df ((n, t) # rest) = on_error pd n e df"
  by simp

lemma convert_raised_assign:
  "df n = Some col \<Longrightarrow> astype pd t col = Inr col' \<Longrightarrow> loc_set pd col col' = (Some e, left) \<Longrightarrow>
     convert_data_frame_types pd df ((n, t) # rest) = on_error pd n e (df(n \<mapsto> left))"
  by simp

lemma convert_dom: "dom (snd (convert_data_frame_types pd df m)) = dom df"
proof (induction m arbitrary: df)
  case Nil
  show ?case by simp
next
  case (Cons p m)
  obtain n t where p: "p = (n, t)" by (cases p)
  show ?case
  proof (cases "df n")
    case None
    with Cons [of df] show ?thesis by (simp only: p convert_absent)
  next
    case (Some col)
    have upd: "dom (df(n \<mapsto> left)) = dom df" for left using Some by auto
    show ?thesis
    proof (cases "astype pd t col")
      case (Inl e)
      show ?thesis
        by (simp only: p convert_raised_astype [where df = df, OF Some Inl] on_error_result)
    next
      case (Inr col')
      obtain r left where l: "loc_set pd col col' = (r, left)"
        by (cases "loc_set pd col col'")
      show ?thesis
      proof (cases r)
        case None
        note run = convert_converted [where df = df, OF Some Inr l [unfolded None]]
        from Cons [of "df(n \<mapsto> left)"] upd [of left] show ?thesis
          by (simp only: p run)
      next
        case (Some e)
        note run = convert_raised_assign [where df = df, OF \<open>df n = Some col\<close> Inr l [unfolded Some]]
        from upd [of left] show ?thesis by (simp only: p run on_error_result)
      qed
    qed
  qed
qed

lemma convert_other_columns:
  "c \<notin> fst ` set m \<Longrightarrow> snd (convert_data_frame_types pd df m) c = df c"
proof (induction m arbitrary: df)
  case Nil
  show ?case by simp
next
  case (Cons p m)
  obtain n t where p: "p = (n, t)" by (cases p)
  from Cons.prems p have c: "c \<notin> fst ` set m" and cn: "c \<noteq> n" by auto
  have upd: "(df(n \<mapsto> left)) c = df c" for left using cn by simp
  show ?case
  proof (cases "df n")
    case None
    with Cons.IH [OF c, of df] show ?thesis by (simp only: p convert_absent)
  next
    case (Some col)
    show ?thesis
    proof (cases "astype pd t col")
      case (Inl e)
      show ?thesis
        by (simp only: p convert_raised_astype [where df = df, OF Some Inl] on_error_result)
    next
      case (Inr col')
      obtain r left where l: "loc_set pd col col' = (r, left)"
        by (cases "loc_set pd col col'")
      show ?thesis
      proof (cases r)
        case None
        note run = convert_converted [where df = df, OF Some Inr l [unfolded None]]
        from Cons.IH [OF c, of "df(n \<mapsto> left)"] upd [of left] show ?thesis
          by (simp only: p run)
      next
        case (Some e)
        note run = convert_raised_assign [where df = df, OF \<open>df n = Some col\<close> Inr l [unfolded Some]]
        from upd [of left] show ?thesis by (simp only: p run on_error_result)
      qed
    qed
  qed
qed

lemma convert_present_only:
  "convert_data_frame_types pd df m
     = convert_data_frame_types pd df (filter (\<lambda>(n, t). df n \<noteq> None) m)"
proof (induction m arbitrary: df)
  case Nil
  show ?case by simp
next
  case (Cons p m)
  obtain n t where p: "p = (n, t)" by (cases p)
  show ?case
  proof (cases "df n")
    case None
    then have "filter (\<lambda>(n, t). df n \<noteq> None) (p # m) = filter (\<lambda>(n, t). df n \<noteq> None) m"
      by (simp add: p)
    with Cons [of df] None show ?thesis by (simp only: p convert_absent)
  next
    case (Some col)
    then have f: "filter (\<lambda>(n, t). df n \<noteq> None) (p # m)
                    = (n, t) # filter (\<lambda>(n, t). df n \<noteq> None) m"
      by (simp add: p)
    show ?thesis
    proof (cases "astype pd t col")
      case (Inl e)
      show ?thesis
        unfolding f unfolding p
        by (simp only: convert_raised_astype [where df = df, OF Some Inl])
    next
      case (Inr col')
      obtain r left where l: "loc_set pd col col' = (r, left)"
        by (cases "loc_set pd col col'")
      show ?thesis
      proof (cases r)
        case (Some e)
        show ?thesis
          unfolding f unfolding p
          by (simp only:
                convert_raised_assign [where df = df, OF \<open>df n = Some col\<close> Inr l [unfolded Some]])
      next
        case None
        note run = convert_converted [where df = df, OF Some Inr l [unfolded None]]
        let ?df = "df(n \<mapsto> left)"
        have "?df k \<noteq> None \<longleftrightarrow> df k \<noteq> None" for k using Some by simp
        then have g: "filter (\<lambda>(n, t). ?df n \<noteq> None) m = filter (\<lambda>(n, t). df n \<noteq> None) m"
          by (intro filter_cong) auto
        have "convert_data_frame_types pd df (p # m) = convert_data_frame_types pd ?df m"
          by (simp only: p run)
        also have "\<dots> = convert_data_frame_types pd ?df (filter (\<lambda>(n, t). ?df n \<noteq> None) m)"
          by (rule Cons)
        also have "\<dots> = convert_data_frame_types pd ?df (filter (\<lambda>(n, t). df n \<noteq> None) m)"
          by (simp only: g)
        also have "\<dots> = convert_data_frame_types pd df
                            ((n, t) # filter (\<lambda>(n, t). df n \<noteq> None) m)"
          by (simp only: run)
        also have "\<dots> = convert_data_frame_types pd df
                            (filter (\<lambda>(n, t). df n \<noteq> None) (p # m))"
          by (simp only: f)
        finally show ?thesis .
      qed
    qed
  qed
qed

lemma convert_coerces:
  "distinct (map fst m) \<Longrightarrow> fst (convert_data_frame_types pd df m) = None
     \<Longrightarrow> (n, t) \<in> set m \<Longrightarrow> df n = Some col
     \<Longrightarrow> \<exists>col' left. astype pd t col = Inr col' \<and> loc_set pd col col' = (None, left)
            \<and> snd (convert_data_frame_types pd df m) n = Some left"
proof (induction m arbitrary: df)
  case Nil
  then show ?case by simp
next
  case (Cons p m)
  obtain k u where p: "p = (k, u)" by (cases p)
  from Cons.prems(1) p have d: "distinct (map fst m)" and km: "k \<notin> fst ` set m"
    by simp_all
  show ?case
  proof (cases "df k")
    case None
    with Cons.prems(3,4) p have in_m: "(n, t) \<in> set m" by auto
    from Cons.prems(2) have "fst (convert_data_frame_types pd df m) = None"
      by (simp only: p convert_absent [where df = df, OF None])
    from Cons.IH [OF d this in_m Cons.prems(4)] show ?thesis
      by (simp only: p convert_absent [where df = df, OF None])
  next
    case (Some c0)
    show ?thesis
    proof (cases "astype pd u c0")
      case (Inl e)
      from Cons.prems(2) on_error_result(2) [of pd k e df] show ?thesis
        by (simp only: p convert_raised_astype [where df = df, OF Some Inl])
    next
      case (Inr c1)
      obtain r left where l: "loc_set pd c0 c1 = (r, left)" by (cases "loc_set pd c0 c1")
      show ?thesis
      proof (cases r)
        case (Some e)
        from Cons.prems(2) on_error_result(2) [of pd k e "df(k \<mapsto> left)"] show ?thesis
          by (simp only: p
                convert_raised_assign [where df = df, OF \<open>df k = Some c0\<close> Inr l [unfolded Some]])
      next
        case None
        note l' = l [unfolded None]
        let ?df = "df(k \<mapsto> left)"
        note run = convert_converted [where df = df, OF Some Inr l']
        from Cons.prems(2) have ok: "fst (convert_data_frame_types pd ?df m) = None"
          by (simp only: p run)
        show ?thesis
        proof (cases "n = k")
          case True
          with Cons.prems(3) km p have "t = u" by force
          moreover have "snd (convert_data_frame_types pd ?df m) k = ?df k"
            by (rule convert_other_columns [OF km])
          moreover have "col = c0" using True Some Cons.prems(4) by simp
          ultimately have "astype pd t col = Inr c1 \<and> loc_set pd col c1 = (None, left)
              \<and> snd (convert_data_frame_types pd ?df m) n = Some left"
            using True Inr l' by simp
          then show ?thesis by (simp only: p run) blast
        next
          case False
          with Cons.prems(3) p have in_m: "(n, t) \<in> set m" by simp
          have "?df n = Some col" using False Cons.prems(4) by simp
          from Cons.IH [OF d ok in_m this] show ?thesis by (simp only: p run)
        qed
      qed
    qed
  qed
qed

text \<open>
  C7. A column that the mapping does not name is the same column after
  \<^verbatim>\<open>convert_data_frame_types\<close>, whether it returns or raises, from the conversion or
  from the assignment, and no column is added or removed. An entry of the mapping whose
  column the frame lacks can be left out without changing the result. When the call
  returns, each column that the mapping names and the frame has was converted and
  assigned without an exception, and holds what the assignment left.
\<close>

theorem convert_data_frame_types_touches_listed_present_columns:
  "(c \<notin> fst ` set m \<longrightarrow> snd (convert_data_frame_types pd df m) c = df c)
   \<and> dom (snd (convert_data_frame_types pd df m)) = dom df
   \<and> convert_data_frame_types pd df m
       = convert_data_frame_types pd df (filter (\<lambda>(n, t). df n \<noteq> None) m)
   \<and> (distinct (map fst m) \<longrightarrow> fst (convert_data_frame_types pd df m) = None \<longrightarrow>
        (n, t) \<in> set m \<longrightarrow> df n = Some col \<longrightarrow>
          (\<exists>col' left. astype pd t col = Inr col' \<and> loc_set pd col col' = (None, left)
             \<and> snd (convert_data_frame_types pd df m) n = Some left))"
  using convert_other_columns [of c m pd df] convert_dom [of pd df m]
    convert_present_only [of pd df m] convert_coerces [of m pd df n t col]
  by blast

theorem convert_data_frame_types_touches_listed_present_columns_witness:
  "ascii ''GAME_ID'' \<notin> fst ` set demo_types
   \<and> snd (convert_data_frame_types demo_pd demo_df demo_types) (ascii ''GAME_ID'')
       = Some (''f8'', [0, 0])
   \<and> distinct (map fst demo_types)
   \<and> fst (convert_data_frame_types demo_pd demo_df demo_types) = None
   \<and> (ascii ''INN_CT'', ''int'') \<in> set demo_types
   \<and> demo_df (ascii ''INN_CT'') = Some (''f8'', [1, 2])
   \<and> snd (convert_data_frame_types demo_pd demo_df demo_types) (ascii ''INN_CT'')
       = Some (''int'', [1, 2])
   \<and> filter (\<lambda>(n, t). demo_df n \<noteq> None) demo_types = [(ascii ''INN_CT'', ''int'')]
   \<and> ascii ''GAME_ID'' \<notin> fst ` set demo_str_types
   \<and> fst (convert_data_frame_types demo_pd demo_df demo_str_types) = Some TypeError
   \<and> snd (convert_data_frame_types demo_pd demo_df demo_str_types) (ascii ''GAME_ID'')
       = Some (''f8'', [0, 0])"
proof -
  have a: "ascii ''GAME_ID'' \<notin> fst ` set demo_types"
    by (simp add: demo_types_def ascii_def)
  have b: "demo_df (ascii ''GAME_ID'') = Some (''f8'', [0, 0])"
    by (simp add: demo_df_def ascii_def)
  have d: "distinct (map fst demo_types)" by (simp add: demo_types_def ascii_def)
  have r: "fst (convert_data_frame_types demo_pd demo_df demo_types) = None"
    by (simp add: demo_types_def demo_df_def demo_pd_def ascii_def)
  have i: "(ascii ''INN_CT'', ''int'') \<in> set demo_types" by (simp add: demo_types_def)
  have j: "demo_df (ascii ''INN_CT'') = Some (''f8'', [1, 2])"
    by (simp add: demo_df_def ascii_def)
  have f: "filter (\<lambda>(n, t). demo_df n \<noteq> None) demo_types = [(ascii ''INN_CT'', ''int'')]"
    by (simp add: demo_types_def demo_df_def ascii_def)
  have a': "ascii ''GAME_ID'' \<notin> fst ` set demo_str_types"
    by (simp add: demo_str_types_def ascii_def)
  have r': "fst (convert_data_frame_types demo_pd demo_df demo_str_types) = Some TypeError"
    by (simp add: demo_str_types_def demo_df_def demo_pd_def ascii_def on_error_def)
  note t = convert_data_frame_types_touches_listed_present_columns
             [of "ascii ''GAME_ID''" demo_types demo_pd demo_df "ascii ''INN_CT''" "''int''"
                 "(''f8'', [1, 2])"]
  from t have "ascii ''GAME_ID'' \<notin> fst ` set demo_types \<longrightarrow>
      snd (convert_data_frame_types demo_pd demo_df demo_types) (ascii ''GAME_ID'')
        = demo_df (ascii ''GAME_ID'')"
    by (rule conjunct1)
  with a b have one: "snd (convert_data_frame_types demo_pd demo_df demo_types) (ascii ''GAME_ID'')
       = Some (''f8'', [0, 0])" by simp
  from t d r i j obtain col' left where "astype demo_pd ''int'' (''f8'', [1, 2]) = Inr col'"
    and "loc_set demo_pd (''f8'', [1, 2]) col' = (None, left)"
    and "snd (convert_data_frame_types demo_pd demo_df demo_types) (ascii ''INN_CT'')
           = Some left"
    by blast
  then have two: "snd (convert_data_frame_types demo_pd demo_df demo_types) (ascii ''INN_CT'')
       = Some (''int'', [1, 2])"
    by (auto simp: demo_pd_def)
  from convert_data_frame_types_touches_listed_present_columns
         [of "ascii ''GAME_ID''" demo_str_types demo_pd demo_df]
  have "ascii ''GAME_ID'' \<notin> fst ` set demo_str_types \<longrightarrow>
      snd (convert_data_frame_types demo_pd demo_df demo_str_types) (ascii ''GAME_ID'')
        = demo_df (ascii ''GAME_ID'')"
    by (rule conjunct1)
  with a' b have three:
    "snd (convert_data_frame_types demo_pd demo_df demo_str_types) (ascii ''GAME_ID'')
       = Some (''f8'', [0, 0])" by simp
  from a one d r i j two f a' r' three show ?thesis by blast
qed

subsection \<open>The generator\<close>

lemma feof_loaded:
  "dll c = Some h \<Longrightarrow>
     feof fh (c, w)
       = (Inr (fst (c_feof w fh (native w))), c,
          w\<lparr>native := snd (c_feof w fh (native w)),
            trace := trace w @ [Feof fh (fst (c_feof w fh (native w)))]\<rparr>)"
  by (simp add: feof_def bind_def libchadwick_loaded split: prod.splits)

lemma fclose_loaded:
  "dll c = Some h \<Longrightarrow>
     fclose fh (c, w)
       = (Inr (), c, w\<lparr>native := c_fclose w fh (native w), trace := trace w @ [Fclose fh]\<rparr>)"
  by (simp add: fclose_def bind_def libchadwick_loaded)

lemma fopen_loaded:
  "dll c = Some h \<Longrightarrow>
     fopen path mode (c, w)
       = (Inr (fst (c_fopen w path mode (native w))), c,
          w\<lparr>native := snd (c_fopen w path mode (native w)),
            trace := trace w @ [Fopen path mode (fst (c_fopen w path mode (native w)))]\<rparr>)"
  by (simp add: fopen_def bind_def libchadwick_loaded split: prod.splits)

lemma call_cw_game_read_run:
  "call_cw_game_read fh (c, w)
     = (fst (c_cw_game_read w fh (native w)), c,
        w\<lparr>native := snd (c_cw_game_read w fh (native w)),
          trace := trace w @ [CwGameRead fh (fst (c_cw_game_read w fh (native w)))]\<rparr>)"
  by (simp add: call_cw_game_read_def split: prod.splits)

lemma sint_c_int_0: "sint (r :: c_int) = 0 \<longleftrightarrow> r = 0"
  by (simp add: signed_eq_0_iff)

lemma games_loop_eof:
  assumes "dll c = Some h" and "c_feof w fh (native w) = (r, n1)" and "r \<noteq> 0"
  shows "games_loop fh (c, w)
           = (StopIteration, Finished, c, w\<lparr>native := n1, trace := trace w @ [Feof fh r]\<rparr>)"
  using assms by (simp add: games_loop_def feof_loaded sint_c_int_0)

lemma games_loop_yield:
  assumes "dll c = Some h" and "c_feof w fh (native w) = (0, n1)"
    and "c_cw_game_read w fh n1 = (Inr g, n2)"
  shows "games_loop fh (c, w)
           = (Yield g, Suspended fh, c,
              w\<lparr>native := n2, trace := trace w @ [Feof fh 0, CwGameRead fh (Inr g)]\<rparr>)"
  using assms by (simp add: games_loop_def feof_loaded call_cw_game_read_run)

lemma games_loop_raise:
  assumes "dll c = Some h" and "c_feof w fh (native w) = (0, n1)"
    and "c_cw_game_read w fh n1 = (Inl e, n2)"
  shows "games_loop fh (c, w)
           = (StopIteration, Finished, c,
              w\<lparr>native := c_fclose w fh n2,
                trace := trace w @ [Feof fh 0, CwGameRead fh (Inl e), Fclose fh]\<rparr>)"
  using assms by (simp add: games_loop_def feof_loaded call_cw_game_read_run fclose_loaded)

lemma games_next_fresh:
  assumes "dll c = Some h" and "c_fopen w path ''r'' (native w) = (fh, n0)"
  shows "games_next (Fresh path) (c, w)
           = games_loop fh (c, w\<lparr>native := n0, trace := trace w @ [Fopen path ''r'' fh]\<rparr>)"
  using assms by (simp add: games_next_def libchadwick_loaded fopen_loaded)

text \<open>
  C2. On a loaded instance, when the loop test passes and the read of the next game
  raises, whatever the exception, a call of \<^verbatim>\<open>next\<close> on the generator, suspended or not
  yet started, calls \<^verbatim>\<open>fclose\<close> on the file handle right after the read and ends the
  iteration: the caller sees the end of the iteration, not the exception, and a
  finished generator yields nothing more and calls nothing.
\<close>

theorem games_closes_and_stops_when_read_raises:
  assumes "dll c = Some h"
  shows "(c_feof w fh (native w) = (0, n1) \<longrightarrow> c_cw_game_read w fh n1 = (Inl e, n2) \<longrightarrow>
            games_next (Suspended fh) (c, w)
              = (StopIteration, Finished, c,
                 w\<lparr>native := c_fclose w fh n2,
                   trace := trace w @ [Feof fh 0, CwGameRead fh (Inl e), Fclose fh]\<rparr>))
       \<and> (c_fopen w path ''r'' (native w) = (fh, n0) \<longrightarrow> c_feof w fh n0 = (0, n1) \<longrightarrow>
          c_cw_game_read w fh n1 = (Inl e, n2) \<longrightarrow>
            games_next (games path) (c, w)
              = (StopIteration, Finished, c,
                 w\<lparr>native := c_fclose w fh n2,
                   trace := trace w @ [Fopen path ''r'' fh, Feof fh 0, CwGameRead fh (Inl e),
                                       Fclose fh]\<rparr>))
       \<and> games_next Finished s = (StopIteration, Finished, s)"
proof (intro conjI impI)
  assume "c_feof w fh (native w) = (0, n1)" and "c_cw_game_read w fh n1 = (Inl e, n2)"
  from games_loop_raise [OF assms this]
  show "games_next (Suspended fh) (c, w)
          = (StopIteration, Finished, c,
             w\<lparr>native := c_fclose w fh n2,
               trace := trace w @ [Feof fh 0, CwGameRead fh (Inl e), Fclose fh]\<rparr>)"
    by (simp add: games_next_def)
next
  assume o: "c_fopen w path ''r'' (native w) = (fh, n0)"
    and f: "c_feof w fh n0 = (0, n1)" and r: "c_cw_game_read w fh n1 = (Inl e, n2)"
  let ?w = "w\<lparr>native := n0, trace := trace w @ [Fopen path ''r'' fh]\<rparr>"
  have f': "c_feof ?w fh (native ?w) = (0, n1)" using f by simp
  have r': "c_cw_game_read ?w fh n1 = (Inl e, n2)" using r by simp
  have "games_loop fh (c, ?w)
          = (StopIteration, Finished, c,
             ?w\<lparr>native := c_fclose ?w fh n2,
                 trace := trace ?w @ [Feof fh 0, CwGameRead fh (Inl e), Fclose fh]\<rparr>)"
    by (rule games_loop_raise [OF assms f' r'])
  with games_next_fresh [OF assms o]
  show "games_next (games path) (c, w)
          = (StopIteration, Finished, c,
             w\<lparr>native := c_fclose w fh n2,
               trace := trace w @ [Fopen path ''r'' fh, Feof fh 0, CwGameRead fh (Inl e),
                                   Fclose fh]\<rparr>)"
    by (simp add: games_def)
next
  show "games_next Finished s = (StopIteration, Finished, s)"
    by (simp add: games_next_def)
qed

theorem games_closes_and_stops_when_read_raises_witness:
  "dll demo = Some (CDLL ''libchadwick2.so'')
   \<and> c_feof broken_world (Some 1) (native broken_world) = (0, native broken_world)
   \<and> c_cw_game_read broken_world (Some 1) (native broken_world)
       = (Inl (Native 5), native broken_world)
   \<and> games_next (Suspended (Some 1)) (demo, broken_world)
       = (StopIteration, Finished, demo,
          broken_world\<lparr>native := c_fclose broken_world (Some 1) (native broken_world),
            trace := trace broken_world
                     @ [Feof (Some 1) 0, CwGameRead (Some 1) (Inl (Native 5)), Fclose (Some 1)]\<rparr>)
   \<and> c_fopen broken_world ''1998ATL.EVN'' ''r'' (native broken_world)
       = (Some 1, native broken_world)
   \<and> games_next (games ''1998ATL.EVN'') (demo, broken_world)
       = (StopIteration, Finished, demo,
          broken_world\<lparr>native := c_fclose broken_world (Some 1) (native broken_world),
            trace := trace broken_world
                     @ [Fopen ''1998ATL.EVN'' ''r'' (Some 1), Feof (Some 1) 0,
                        CwGameRead (Some 1) (Inl (Native 5)), Fclose (Some 1)]\<rparr>)"
proof -
  have f: "c_feof broken_world (Some 1) (native broken_world) = (0, native broken_world)"
    by (simp add: broken_world_def demo_world_def)
  have r: "c_cw_game_read broken_world (Some 1) (native broken_world)
             = (Inl (Native 5), native broken_world)"
    by (simp add: broken_world_def)
  have o: "c_fopen broken_world ''1998ATL.EVN'' ''r'' (native broken_world)
             = (Some 1, native broken_world)"
    by (simp add: broken_world_def demo_world_def)
  note t = games_closes_and_stops_when_read_raises
             [OF demo_dll, where w = broken_world and fh = "Some 1"
                and ?n0.0 = "native broken_world" and ?n1.0 = "native broken_world"
                and ?n2.0 = "native broken_world" and e = "Native 5"
                and path = "''1998ATL.EVN''"]
  from t f r o demo_dll show ?thesis by blast
qed

lemma rounds_Cons: "rounds fh (x # xs) = Feof fh 0 # CwGameRead fh (Inr x) # rounds fh xs"
  by (simp add: rounds_def)

lemma games_read_rounds: "games_read (rounds fh xs @ evs) = xs @ games_read evs"
  by (induction xs) (simp_all add: rounds_def)

lemma read_after_eof_rounds: "read_after_eof (rounds fh xs @ evs) = read_after_eof evs"
  by (induction xs) (simp_all add: rounds_def)

lemma take_games_suspended:
  assumes "dll c = Some h"
    and "take_games n (Suspended fh) (c, w) = (xs, g, c', w')"
  shows "c' = c
       \<and> (\<exists>tail. trace w' = trace w @ rounds fh xs @ tail
            \<and> (tail = [] \<and> g = Suspended fh \<and> length xs = n
               \<or> (\<exists>r. r \<noteq> 0 \<and> tail = [Feof fh r] \<and> g = Finished)
               \<or> (\<exists>e. tail = [Feof fh 0, CwGameRead fh (Inl e), Fclose fh] \<and> g = Finished)))"
  using assms(2)
proof (induction n arbitrary: w xs g c' w')
  case 0
  then show ?case by (simp add: rounds_def)
next
  case (Suc n)
  obtain r n1 where f: "c_feof w fh (native w) = (r, n1)" by (cases "c_feof w fh (native w)")
  show ?case
  proof (cases "r = 0")
    case False
    from games_loop_eof [OF assms(1) f False] Suc.prems
    have "xs = []" "g = Finished" "c' = c"
      "w' = w\<lparr>native := n1, trace := trace w @ [Feof fh r]\<rparr>"
      by (simp_all add: games_next_def)
    with False show ?thesis by (simp add: rounds_def)
  next
    case True
    with f have f0: "c_feof w fh (native w) = (0, n1)" by simp
    obtain res n2 where rd: "c_cw_game_read w fh n1 = (res, n2)"
      by (cases "c_cw_game_read w fh n1")
    show ?thesis
    proof (cases res)
      case (Inl e)
      from games_loop_raise [OF assms(1) f0 rd [unfolded Inl]] Suc.prems
      have "xs = []" "g = Finished" "c' = c"
        "trace w' = trace w @ [Feof fh 0, CwGameRead fh (Inl e), Fclose fh]"
        by (auto simp: games_next_def)
      then show ?thesis by (simp add: rounds_def)
    next
      case (Inr x)
      let ?w = "w\<lparr>native := n2, trace := trace w @ [Feof fh 0, CwGameRead fh (Inr x)]\<rparr>"
      from games_loop_yield [OF assms(1) f0 rd [unfolded Inr]]
      have step: "games_next (Suspended fh) (c, w) = (Yield x, Suspended fh, c, ?w)"
        by (simp add: games_next_def)
      obtain ys g2 c2 w2 where rest: "take_games n (Suspended fh) (c, ?w) = (ys, g2, c2, w2)"
        by (cases "take_games n (Suspended fh) (c, ?w)") auto
      from Suc.prems step rest have eq: "xs = x # ys" "g = g2" "c' = c2" "w' = w2"
        by simp_all
      from Suc.IH [OF rest] obtain tail where
        c2: "c2 = c"
        and tr: "trace w2 = trace ?w @ rounds fh ys @ tail"
        and sh: "tail = [] \<and> g2 = Suspended fh \<and> length ys = n
                 \<or> (\<exists>r. r \<noteq> 0 \<and> tail = [Feof fh r] \<and> g2 = Finished)
                 \<or> (\<exists>e. tail = [Feof fh 0, CwGameRead fh (Inl e), Fclose fh] \<and> g2 = Finished)"
        by blast
      from tr have "trace w' = trace w @ rounds fh xs @ tail"
        by (simp add: eq rounds_Cons)
      moreover from sh have "tail = [] \<and> g = Suspended fh \<and> length xs = Suc n
                 \<or> (\<exists>r. r \<noteq> 0 \<and> tail = [Feof fh r] \<and> g = Finished)
                 \<or> (\<exists>e. tail = [Feof fh 0, CwGameRead fh (Inl e), Fclose fh] \<and> g = Finished)"
        by (simp add: eq)
      ultimately show ?thesis using c2 eq by blast
    qed
  qed
qed

text \<open>
  C5. On a loaded instance, a consumer that asks \<^verbatim>\<open>games(file_path)\<close> for games sees
  this and nothing else happen: the file is opened by its path for reading; then, for each
  game yielded, the end-of-file test on the handle returns 0 and \<^verbatim>\<open>cw_game_read\<close> on the
  handle returns that game; and the run ends in one of three ways: the consumer has all
  the games it asked for, or the end-of-file test returns nonzero and the generator is
  finished, or the read raises. So the games yielded are exactly the pointers the reads
  returned, in order, and no read follows an end-of-file test that returned nonzero.
\<close>

theorem games_reads_until_end_of_file:
  assumes "dll c = Some h"
    and "take_games (Suc n) (games file_path) (c, w) = (xs, g, c', w')"
  shows "\<exists>fh tail.
           fh = fst (c_fopen w file_path ''r'' (native w))
         \<and> trace w' = trace w @ Fopen file_path ''r'' fh # rounds fh xs @ tail
         \<and> (tail = [] \<and> g = Suspended fh \<and> length xs = Suc n
            \<or> (\<exists>r. r \<noteq> 0 \<and> tail = [Feof fh r] \<and> g = Finished)
            \<or> (\<exists>e. tail = [Feof fh 0, CwGameRead fh (Inl e), Fclose fh] \<and> g = Finished))
         \<and> games_read (drop (length (trace w)) (trace w')) = xs
         \<and> \<not> read_after_eof (drop (length (trace w)) (trace w'))"
proof -
  obtain fh n0 where o: "c_fopen w file_path ''r'' (native w) = (fh, n0)"
    by (cases "c_fopen w file_path ''r'' (native w)")
  let ?w = "w\<lparr>native := n0, trace := trace w @ [Fopen file_path ''r'' fh]\<rparr>"
  have "games_next (Fresh file_path) (c, w) = games_next (Suspended fh) (c, ?w)"
    using games_next_fresh [OF assms(1) o] by (simp add: games_next_def)
  with assms(2) have "take_games (Suc n) (Suspended fh) (c, ?w) = (xs, g, c', w')"
    by (simp add: games_def)
  from take_games_suspended [OF assms(1) this] obtain tail where
    tr: "trace w' = trace ?w @ rounds fh xs @ tail"
    and sh: "tail = [] \<and> g = Suspended fh \<and> length xs = Suc n
             \<or> (\<exists>r. r \<noteq> 0 \<and> tail = [Feof fh r] \<and> g = Finished)
             \<or> (\<exists>e. tail = [Feof fh 0, CwGameRead fh (Inl e), Fclose fh] \<and> g = Finished)"
    by blast
  from tr have t: "trace w' = trace w @ Fopen file_path ''r'' fh # rounds fh xs @ tail"
    by simp
  then have d: "drop (length (trace w)) (trace w') = Fopen file_path ''r'' fh # rounds fh xs @ tail"
    by simp
  from sh have "games_read tail = []" "\<not> read_after_eof tail" by auto
  then have "games_read (drop (length (trace w)) (trace w')) = xs"
    "\<not> read_after_eof (drop (length (trace w)) (trace w'))"
    by (simp_all add: d games_read_rounds read_after_eof_rounds)
  with o t sh show ?thesis by auto
qed

lemma demo_run:
  "fst (take_games 5 (games ''1998ATL.EVN'') (demo, demo_world)) = [7, 8, 0]"
  "fst (snd (take_games 5 (games ''1998ATL.EVN'') (demo, demo_world))) = Finished"
  "trace (snd (snd (snd (take_games 5 (games ''1998ATL.EVN'') (demo, demo_world)))))
     = [Fopen ''1998ATL.EVN'' ''r'' (Some 1), Feof (Some 1) 0, CwGameRead (Some 1) (Inr 7),
        Feof (Some 1) 0, CwGameRead (Some 1) (Inr 8), Feof (Some 1) 0,
        CwGameRead (Some 1) (Inr 0), Feof (Some 1) 1]"
  by code_simp+

theorem games_reads_until_end_of_file_witness:
  "dll demo = Some (CDLL ''libchadwick2.so'')
   \<and> fst (take_games 5 (games ''1998ATL.EVN'') (demo, demo_world)) = [7, 8, 0]
   \<and> fst (snd (take_games 5 (games ''1998ATL.EVN'') (demo, demo_world))) = Finished
   \<and> games_read (drop (length (trace demo_world))
        (trace (snd (snd (snd (take_games 5 (games ''1998ATL.EVN'') (demo, demo_world)))))))
       = [7, 8, 0]
   \<and> \<not> read_after_eof (drop (length (trace demo_world))
        (trace (snd (snd (snd (take_games 5 (games ''1998ATL.EVN'') (demo, demo_world)))))))"
proof -
  let ?T = "take_games 5 (games ''1998ATL.EVN'') (demo, demo_world)"
  have "take_games (Suc 4) (games ''1998ATL.EVN'') (demo, demo_world)
          = (fst ?T, fst (snd ?T), fst (snd (snd ?T)), snd (snd (snd ?T)))"
    by (simp add: eval_nat_numeral)
  from games_reads_until_end_of_file [OF demo_dll this]
  have "games_read (drop (length (trace demo_world)) (trace (snd (snd (snd ?T))))) = fst ?T"
    and "\<not> read_after_eof (drop (length (trace demo_world)) (trace (snd (snd (snd ?T)))))"
    by blast+
  with demo_run(1,2) demo_dll show ?thesis by simp
qed

end
